theory Spec2Isabelle
  imports Complex_Main "HOL-Library.Word"
begin

section \<open>JavaScript strings\<close>

text \<open>
  A JavaScript string is a sequence of UTF-16 code units; \<open>length\<close>, \<open>substring\<close> and the
  regular expressions of the services count and read code units.  String literals of the
  source that are not ASCII are written as their code units, with the meaning in a comment.
\<close>

type_synonym jschar = "16 word"
type_synonym jsstring = "jschar list"

definition js :: "string \<Rightarrow> jsstring" where
  \<comment> \<open>an ASCII literal of the source\<close>
  "js s = map (\<lambda>c. of_nat (of_char c)) s"

definition LF :: jschar where "LF = 0x0A"
definition SP :: jschar where "SP = 0x20"

definition is_js_space :: "jschar \<Rightarrow> bool" where
  \<comment> \<open>the class \<open>\s\<close> of a regular expression, which is also what \<open>trim()\<close> strips:
      white space and line terminators\<close>
  "is_js_space c \<longleftrightarrow>
     c = 0x09 \<or> c = 0x0A \<or> c = 0x0B \<or> c = 0x0C \<or> c = 0x0D \<or> c = 0x20 \<or>
     c = 0xA0 \<or> c = 0x1680 \<or> (0x2000 \<le> c \<and> c \<le> 0x200A) \<or>
     c = 0x2028 \<or> c = 0x2029 \<or> c = 0x202F \<or> c = 0x205F \<or> c = 0x3000 \<or> c = 0xFEFF"

definition is_js_digit :: "jschar \<Rightarrow> bool" where
  \<comment> \<open>the class \<open>\d\<close>: ASCII digits only\<close>
  "is_js_digit c \<longleftrightarrow> 0x30 \<le> c \<and> c \<le> 0x39"

definition trim :: "jsstring \<Rightarrow> jsstring" where
  \<comment> \<open>\<open>String.prototype.trim\<close>\<close>
  "trim s = rev (dropWhile is_js_space (rev (dropWhile is_js_space s)))"

definition startsWith :: "jsstring \<Rightarrow> jsstring \<Rightarrow> bool" where
  "startsWith s p \<longleftrightarrow> take (length p) s = p"

fun split_on :: "jschar \<Rightarrow> jsstring \<Rightarrow> jsstring list" where
  \<comment> \<open>\<open>s.split(c)\<close> for a one-character separator: never the empty list\<close>
  "split_on c [] = [[]]"
| "split_on c (x # xs) =
     (if x = c then [] # split_on c xs
      else (case split_on c xs of [] \<Rightarrow> [[x]] | l # ls \<Rightarrow> (x # l) # ls))"

fun join :: "jsstring \<Rightarrow> jsstring list \<Rightarrow> jsstring" where
  \<comment> \<open>\<open>parts.join(sep)\<close>\<close>
  "join sep [] = []"
| "join sep [x] = x"
| "join sep (x # y # ys) = x @ sep @ join sep (y # ys)"

text \<open>The literals of the two services and of the route.\<close>

definition msg_invalid_title :: jsstring where
  \<comment> \<open>"invalid link", the title of the entry of a URL that is refused\<close>
  "msg_invalid_title = [0x65E0, 0x6548, 0x94FE, 0x63A5]"

definition msg_invalid_link :: jsstring where
  \<comment> \<open>"not a valid WeChat article link"\<close>
  "msg_invalid_link =
     [0x4E0D, 0x662F, 0x6709, 0x6548, 0x7684, 0x5FAE, 0x4FE1, 0x6587, 0x7AE0, 0x94FE, 0x63A5]"

definition msg_extract_failed :: jsstring where
  \<comment> \<open>"extraction failed", the title of a failed extraction\<close>
  "msg_extract_failed = [0x63D0, 0x53D6, 0x5931, 0x8D25]"

definition msg_unknown_error :: jsstring where
  \<comment> \<open>"unknown error"\<close>
  "msg_unknown_error = [0x672A, 0x77E5, 0x9519, 0x8BEF]"

definition msg_too_short :: jsstring where
  \<comment> \<open>"article content extraction failed or content too short"\<close>
  "msg_too_short =
     [0x6587, 0x7AE0, 0x5185, 0x5BB9, 0x63D0, 0x53D6, 0x5931, 0x8D25, 0x6216, 0x5185, 0x5BB9,
      0x8FC7, 0x77ED]"

definition msg_untitled :: jsstring where
  \<comment> \<open>"no title"\<close>
  "msg_untitled = [0x65E0, 0x6807, 0x9898]"

definition msg_uncategorized :: jsstring where
  \<comment> \<open>"uncategorized"\<close>
  "msg_uncategorized = [0x672A, 0x5206, 0x7C7B]"

definition label_batch_import :: jsstring where
  \<comment> \<open>"batch import", the default account name\<close>
  "label_batch_import = [0x6279, 0x91CF, 0x5BFC, 0x5165]"

definition msg_created_by_import :: jsstring where
  \<comment> \<open>"created by batch URL import", the description of a new account\<close>
  "msg_created_by_import =
     [0x901A, 0x8FC7, 0x6279, 0x91CF, 0x0055, 0x0052, 0x004C, 0x5BFC, 0x5165, 0x521B, 0x5EFA]"

definition msg_summarize_failed :: jsstring where
  \<comment> \<open>"summarizing failed: ", the prefix of the error of a failed summary\<close>
  "msg_summarize_failed = [0x603B, 0x7ED3, 0x5931, 0x8D25, 0x003A, 0x0020]"

definition msg_need_urls :: jsstring where
  \<comment> \<open>"please provide a valid URL array"\<close>
  "msg_need_urls =
     [0x8BF7, 0x63D0, 0x4F9B, 0x6709, 0x6548, 0x7684, 0x0055, 0x0052, 0x004C, 0x6570, 0x7EC4]"

definition msg_too_many :: jsstring where
  \<comment> \<open>"at most 20 URLs at a time"\<close>
  "msg_too_many =
     [0x5355, 0x6B21, 0x6700, 0x591A, 0x5904, 0x7406, 0x0032, 0x0030, 0x4E2A, 0x0055, 0x0052,
      0x004C]"

section \<open>The content cleaner\<close>

text \<open>
  \<^verbatim>\<open>content.replace(/\s+/g, ' ')\<close>: every maximal run of white space becomes one space.
\<close>

function replace_ws_runs :: "jsstring \<Rightarrow> jsstring" where
  "replace_ws_runs [] = []"
| "replace_ws_runs (c # cs) =
     (if is_js_space c then SP # replace_ws_runs (dropWhile is_js_space cs)
      else c # replace_ws_runs cs)"
  by pat_completeness auto
termination
  by (relation "measure length") (auto simp: le_imp_less_Suc length_dropWhile_le)

text \<open>
  \<^verbatim>\<open>.replace(/\n\s*\n/g, '\n\n')\<close>: at a line feed, the greedy \<open>\s*\<close> takes the whole run of
  white space that follows and gives back characters until it stands before a line feed, so
  the match ends with the last line feed of that run; it is replaced by two line feeds and
  the search goes on behind it.
\<close>

function replace_blank_lines :: "jsstring \<Rightarrow> jsstring" where
  "replace_blank_lines [] = []"
| "replace_blank_lines (c # cs) =
     (if c = LF \<and> LF \<in> set (takeWhile is_js_space cs)
      then LF # LF # replace_blank_lines
             (rev (takeWhile (\<lambda>x. x \<noteq> LF) (rev (takeWhile is_js_space cs)))
              @ dropWhile is_js_space cs)
      else c # replace_blank_lines cs)"
  by pat_completeness auto
termination
proof (relation "measure length")
  fix c :: jschar and cs :: jsstring
  have "length (takeWhile (\<lambda>x. x \<noteq> LF) (rev (takeWhile is_js_space cs)))
          \<le> length (takeWhile is_js_space cs)"
    using length_takeWhile_le [of "\<lambda>x. x \<noteq> LF" "rev (takeWhile is_js_space cs)"] by simp
  moreover have "length (takeWhile is_js_space cs) + length (dropWhile is_js_space cs) = length cs"
    by (metis length_append takeWhile_dropWhile_id)
  ultimately show "c = LF \<and> LF \<in> set (takeWhile is_js_space cs) \<Longrightarrow>
     (rev (takeWhile (\<lambda>x. x \<noteq> LF) (rev (takeWhile is_js_space cs))) @ dropWhile is_js_space cs,
      c # cs) \<in> measure length"
    by simp
qed auto

definition maxContentLength :: nat where
  "maxContentLength = 15000"

definition cleanContent :: "jsstring \<Rightarrow> jsstring" where
  "cleanContent content =
     take maxContentLength (trim (replace_blank_lines (replace_ws_runs content)))"

section \<open>The date parser\<close>

text \<open>
  The three patterns of \<open>parseChineseDate\<close> are sequences of literal characters and of
  capture groups \<open>(\d{lo,hi})\<close>.  \<open>dateStr.match(pattern)\<close> searches the leftmost position
  where the pattern matches; a group is greedy (it first takes as many digits as it may) and
  gives digits back while the rest of the pattern fails.  The result is the match array:
  the matched text, then the text of each group.
\<close>

datatype re_item = Digits nat nat | Lit jschar

type_synonym pattern = "re_item list"

fun first_some :: "('a \<Rightarrow> 'b option) \<Rightarrow> 'a list \<Rightarrow> 'b option" where
  "first_some f [] = None"
| "first_some f (k # ks) = (case f k of Some r \<Rightarrow> Some r | None \<Rightarrow> first_some f ks)"

primrec match_here :: "pattern \<Rightarrow> jsstring \<Rightarrow> (jsstring \<times> jsstring list) option" where
  "match_here [] s = Some ([], [])"
| "match_here (it # its) s =
     (case it of
        Lit c \<Rightarrow>
          (case s of
             [] \<Rightarrow> None
           | x # xs \<Rightarrow>
               if x = c then map_option (\<lambda>(m, gs). (x # m, gs)) (match_here its xs) else None)
      | Digits lo hi \<Rightarrow>
          first_some
            (\<lambda>k. if k \<le> length (takeWhile is_js_digit s)
                 then map_option (\<lambda>(m, gs). (take k s @ m, take k s # gs))
                        (match_here its (drop k s))
                 else None)
            (rev [lo..<Suc hi]))"

fun js_match :: "pattern \<Rightarrow> jsstring \<Rightarrow> jsstring list option" where
  "js_match p [] = map_option (\<lambda>(m, gs). m # gs) (match_here p [])"
| "js_match p (c # cs) =
     (case match_here p (c # cs) of
        Some (m, gs) \<Rightarrow> Some (m # gs)
      | None \<Rightarrow> js_match p cs)"

definition pattern_year_month_day :: pattern where
  \<comment> \<open>\<^verbatim>\<open>/(\d{4})Y(\d{1,2})M(\d{1,2})D/\<close> with the characters for year (U+5E74), month
      (U+6708) and day (U+65E5)\<close>
  "pattern_year_month_day =
     [Digits 4 4, Lit 0x5E74, Digits 1 2, Lit 0x6708, Digits 1 2, Lit 0x65E5]"

definition pattern_iso :: pattern where
  \<comment> \<open>\<^verbatim>\<open>/(\d{4})-(\d{1,2})-(\d{1,2})/\<close>\<close>
  "pattern_iso = [Digits 4 4, Lit 0x2D, Digits 1 2, Lit 0x2D, Digits 1 2]"

definition pattern_month_day :: pattern where
  \<comment> \<open>\<^verbatim>\<open>/(\d{1,2})M(\d{1,2})D/\<close>\<close>
  "pattern_month_day = [Digits 1 2, Lit 0x6708, Digits 1 2, Lit 0x65E5]"

definition patterns :: "pattern list" where
  "patterns = [pattern_year_month_day, pattern_iso, pattern_month_day]"

definition parseInt :: "jsstring \<Rightarrow> int" where
  \<comment> \<open>\<open>parseInt\<close> on the strings that reach it here, the text of a group \<open>(\d{lo,hi})\<close>:
      a run of decimal digits, read in base ten\<close>
  "parseInt s = foldl (\<lambda>a c. 10 * a + (int (unat c) - 48)) 0 s"

text \<open>
  A \<open>Date\<close> is kept as the way it was made: \<open>new Date(year, monthIndex, day)\<close> with its three
  arguments, or \<open>new Date()\<close> with the reading of the clock.
\<close>

datatype js_date = New_Date int int int | Now nat

fun try_patterns :: "int \<Rightarrow> jsstring \<Rightarrow> pattern list \<Rightarrow> js_date option" where
  \<comment> \<open>the loop \<open>for (const pattern of patterns)\<close>; the first argument is what
      \<open>new Date().getFullYear()\<close> gives\<close>
  "try_patterns currentYear dateStr [] = None"
| "try_patterns currentYear dateStr (p # ps) =
     (case js_match p dateStr of
        Some m \<Rightarrow>
          if length m = 4
          then Some (New_Date (parseInt (m ! 1)) (parseInt (m ! 2) - 1) (parseInt (m ! 3)))
          else if length m = 3
          then Some (New_Date currentYear (parseInt (m ! 1) - 1) (parseInt (m ! 2)))
          else try_patterns currentYear dateStr ps
      | None \<Rightarrow> try_patterns currentYear dateStr ps)"

definition parseChineseDate :: "int \<Rightarrow> jsstring \<Rightarrow> js_date option" where
  "parseChineseDate currentYear dateStr = try_patterns currentYear dateStr patterns"

text \<open>
  The reading of the patterns in the words of the specification: the strings a pattern
  describes, and a date string that contains one of them.
\<close>

primrec pattern_lang :: "pattern \<Rightarrow> jsstring set" where
  "pattern_lang [] = {[]}"
| "pattern_lang (it # its) =
     (case it of
        Lit c \<Rightarrow> {c # w | w. w \<in> pattern_lang its}
      | Digits lo hi \<Rightarrow>
          {d @ w | d w. lo \<le> length d \<and> length d \<le> hi \<and> list_all is_js_digit d
                        \<and> w \<in> pattern_lang its})"

definition occurs_in :: "pattern \<Rightarrow> jsstring \<Rightarrow> bool" where
  "occurs_in p s \<longleftrightarrow> (\<exists>pre w post. s = pre @ w @ post \<and> w \<in> pattern_lang p)"

section \<open>The page extractor\<close>

text \<open>
  What the extractor reads of a loaded document \<open>$\<close>: for a selector, the text of the first
  element it selects (\<open>$(selector).first().text()\<close>, the empty string when it selects
  nothing), and for a content selector the first element itself when there is one, as the
  text of each of its \<open>p\<close>, \<open>div\<close> and \<open>section\<close> descendants in document order and its own
  text, both read after its scripts, styles and tool elements were removed.
\<close>

record content_element =
  blocks :: "jsstring list"
  element_text :: jsstring

record dom =
  first_text :: "string \<Rightarrow> jsstring"
  first_element :: "string \<Rightarrow> content_element option"

definition titleSelectors :: "string list" where
  "titleSelectors =
     [''#activity-name'', ''.rich_media_title'', ''h1.rich_media_title'',
      ''.weui-article__title'', ''h1'']"

definition authorSelectors :: "string list" where
  "authorSelectors =
     [''.rich_media_meta_text'', ''.profile_nickname'', ''#js_name'', ''.weui-article__author'']"

definition dateSelectors :: "string list" where
  "dateSelectors = [''#publish_time'', ''.rich_media_meta_text'', ''.weui-article__time'']"

definition contentSelectors :: "string list" where
  "contentSelectors = [''#js_content'', ''.rich_media_content'', ''.weui-article__bd'']"

fun first_trimmed_text :: "dom \<Rightarrow> string list \<Rightarrow> jsstring" where
  \<comment> \<open>the loop of \<open>extractTitle\<close> and of \<open>extractAuthor\<close>\<close>
  "first_trimmed_text d [] = []"
| "first_trimmed_text d (selector # rest) =
     (let t = trim (first_text d selector)
      in if t \<noteq> [] then t else first_trimmed_text d rest)"

definition extractTitle :: "dom \<Rightarrow> jsstring" where
  "extractTitle d = first_trimmed_text d titleSelectors"

definition extractAuthor :: "dom \<Rightarrow> jsstring" where
  "extractAuthor d = first_trimmed_text d authorSelectors"

fun first_parsed_date :: "int \<Rightarrow> dom \<Rightarrow> string list \<Rightarrow> js_date option" where
  \<comment> \<open>the loop of \<open>extractPublishDate\<close>: a text that does not parse leaves the next
      selector its turn\<close>
  "first_parsed_date currentYear d [] = None"
| "first_parsed_date currentYear d (selector # rest) =
     (let dateText = trim (first_text d selector)
      in if dateText \<noteq> []
         then (case parseChineseDate currentYear dateText of
                 Some date \<Rightarrow> Some date
               | None \<Rightarrow> first_parsed_date currentYear d rest)
         else first_parsed_date currentYear d rest)"

definition extractPublishDate :: "int \<Rightarrow> dom \<Rightarrow> js_date option" where
  "extractPublishDate currentYear d = first_parsed_date currentYear d dateSelectors"

definition paragraphs_text :: "jsstring list \<Rightarrow> jsstring" where
  \<comment> \<open>the \<open>each\<close> loop: every block whose trimmed text is longer than 10, followed by two
      line feeds\<close>
  "paragraphs_text bs =
     concat (map (\<lambda>t. t @ [LF, LF]) (filter (\<lambda>t. t \<noteq> [] \<and> 10 < length t) (map trim bs)))"

fun first_content :: "dom \<Rightarrow> string list \<Rightarrow> jsstring" where
  "first_content d [] = []"
| "first_content d (selector # rest) =
     (case first_element d selector of
        Some contentElement \<Rightarrow>
          (let content = paragraphs_text (blocks contentElement)
           in if content = [] then trim (element_text contentElement) else content)
      | None \<Rightarrow> first_content d rest)"

definition extractContent :: "dom \<Rightarrow> jsstring" where
  "extractContent d = first_content d contentSelectors"

text \<open>
  A thrown value is an \<open>Error\<close> with its message, or something that is not an \<open>Error\<close>.
\<close>

datatype js_exn = Error jsstring | Thrown

record ExtractedWeChatArticle =
  url :: jsstring
  title :: jsstring
  content :: jsstring
  author :: "jsstring option"
  publishDate :: "js_date option"
  error :: "jsstring option"

section \<open>The world outside\<close>

text \<open>
  The services call the network, the language model, the clock and the database.  Their
  answers are not the program's: they are the parameters \<open>env\<close> of the model, functions of
  a state \<open>'w\<close> of the outside that every call may change.  \<open>new URL\<close>, \<open>cheerio.load\<close>,
  \<open>JSON.parse\<close>, \<open>JSON.stringify\<close> and the conversion of a thrown value to a string belong
  to the libraries and are parameters too.  What the program itself does to the outside is
  kept in the state \<open>world\<close>: the requests it sent and the pauses it made, in order, and
  the three tables it writes.
\<close>

record urlObj =
  hostname :: jsstring
  pathname :: jsstring

datatype json =
  JNull | JBool bool | JNum real | JStr jsstring | JArr "json list"
  | JObj "(jsstring \<times> json) list"

datatype event = Get jsstring | Post jsstring jsstring | Delay nat

record account_row =
  account_id :: nat
  account_name :: jsstring
  account_displayName :: jsstring
  account_description :: jsstring

record article_row =
  article_id :: nat
  article_title :: jsstring
  article_content :: jsstring
  article_url :: jsstring
  article_publishDate :: js_date
  article_author :: jsstring
  article_accountId :: nat

record summary_row =
  summary_articleId :: nat
  summary_content :: jsstring
  summary_keyPoints :: jsstring
  summary_sentiment :: jsstring
  summary_category :: jsstring

record 'w env =
  URL_parse :: "jsstring \<Rightarrow> urlObj option"
  axios_get :: "jsstring \<Rightarrow> 'w \<Rightarrow> (js_exn + jsstring) \<times> 'w"
  cheerio_load :: "jsstring \<Rightarrow> js_exn + dom"
  getFullYear :: "'w \<Rightarrow> int"
  clock :: "'w \<Rightarrow> nat"
  axios_post :: "jsstring \<Rightarrow> jsstring \<Rightarrow> 'w \<Rightarrow> (js_exn + jsstring) \<times> 'w"
  JSON_parse :: "jsstring \<Rightarrow> js_exn + json"
  JSON_stringify :: "json \<Rightarrow> jsstring"
  String_of :: "js_exn \<Rightarrow> jsstring"
  db_fault :: "'w \<Rightarrow> js_exn option \<times> 'w"
  db_validation_error :: js_exn
  new_id :: "'w \<Rightarrow> nat"

record 'w world =
  outside :: 'w
  events :: "event list"
  weChatAccount :: "jsstring \<rightharpoonup> account_row"
  article :: "jsstring \<rightharpoonup> article_row"
  summary :: "nat \<rightharpoonup> summary_row"

definition message_of :: "js_exn \<Rightarrow> jsstring" where
  \<comment> \<open>\<open>error instanceof Error ? error.message : <unknown error>\<close>\<close>
  "message_of e = (case e of Error m \<Rightarrow> m | Thrown \<Rightarrow> msg_unknown_error)"

definition http_get :: "'w env \<Rightarrow> jsstring \<Rightarrow> 'w world \<Rightarrow> (js_exn + jsstring) \<times> 'w world" where
  \<comment> \<open>\<open>await axios.get(url, ...)\<close>, for its \<open>response.data\<close>\<close>
  "http_get env u w =
     (let (r, out) = axios_get env u (outside w)
      in (r, w\<lparr>outside := out, events := events w @ [Get u]\<rparr>))"

definition delay :: "nat \<Rightarrow> 'w world \<Rightarrow> 'w world" where
  "delay ms w = w\<lparr>events := events w @ [Delay ms]\<rparr>"

definition extract_page :: "'w env \<Rightarrow> jsstring \<Rightarrow> 'w world \<Rightarrow> jsstring \<Rightarrow>
    js_exn + ExtractedWeChatArticle" where
  \<comment> \<open>the \<open>try\<close> block of \<open>extractSingleWeChatArticle\<close> behind the request\<close>
  "extract_page env u w html =
     (case cheerio_load env html of
        Inl e \<Rightarrow> Inl e
      | Inr d \<Rightarrow>
          (let title = extractTitle d;
               author = extractAuthor d;
               publishDate = extractPublishDate (getFullYear env (outside w)) d;
               content = extractContent d
           in if content = [] \<or> length content < 50 then Inl (Error msg_too_short)
              else Inr \<lparr>url = u,
                        title = (if title \<noteq> [] then title else msg_untitled),
                        content = cleanContent content,
                        author = Some author,
                        publishDate = publishDate,
                        error = None\<rparr>))"

definition extractSingleWeChatArticle :: "'w env \<Rightarrow> jsstring \<Rightarrow> 'w world \<Rightarrow>
    ExtractedWeChatArticle \<times> 'w world" where
  "extractSingleWeChatArticle env u w =
     (let (response, w') = http_get env u w;
          body = (case response of Inl e \<Rightarrow> Inl e | Inr html \<Rightarrow> extract_page env u w' html)
      in (case body of
            Inr result \<Rightarrow> (result, w')
          | Inl e \<Rightarrow>
              (\<lparr>url = u, title = msg_extract_failed, content = [], author = None,
                publishDate = None, error = Some (message_of e)\<rparr>, w')))"

section \<open>The batch fetcher\<close>

definition isWeChatArticleUrl :: "'w env \<Rightarrow> jsstring \<Rightarrow> bool" where
  "isWeChatArticleUrl env u =
     (case URL_parse env u of
        None \<Rightarrow> False
      | Some urlObj \<Rightarrow>
          hostname urlObj = js ''mp.weixin.qq.com'' \<and> startsWith (pathname urlObj) (js ''/s/''))"

definition invalid_result :: "jsstring \<Rightarrow> ExtractedWeChatArticle" where
  "invalid_result u =
     \<lparr>url = u, title = msg_invalid_title, content = [], author = None, publishDate = None,
      error = Some msg_invalid_link\<rparr>"

definition concurrencyLimit :: nat where
  "concurrencyLimit = 2"

datatype 'a settled = Fulfilled 'a | Rejected js_exn

fun extract_each :: "'w env \<Rightarrow> jsstring list \<Rightarrow> 'w world \<Rightarrow>
    ExtractedWeChatArticle settled list \<times> 'w world" where
  \<comment> \<open>\<open>Promise.allSettled(batch.map(url => this.extractSingleWeChatArticle(url)))\<close>: the
      requests of a window are sent in the order of the window, and every promise is
      fulfilled, since \<open>extractSingleWeChatArticle\<close> returns from its \<open>catch\<close>\<close>
  "extract_each env [] w = ([], w)"
| "extract_each env (u # us) w =
     (let (r, w1) = extractSingleWeChatArticle env u w;
          (rs, w2) = extract_each env us w1
      in (Fulfilled r # rs, w2))"

definition settled_result :: "jsstring \<Rightarrow> ExtractedWeChatArticle settled \<Rightarrow> ExtractedWeChatArticle"
  where
  \<comment> \<open>the body of \<open>batchResults.forEach\<close>, with \<open>batch[index]\<close> as first argument\<close>
  "settled_result u r =
     (case r of
        Fulfilled v \<Rightarrow> v
      | Rejected reason \<Rightarrow>
          \<lparr>url = u, title = msg_extract_failed, content = [], author = None,
           publishDate = None,
           error = Some (case reason of
                           Error m \<Rightarrow> if m \<noteq> [] then m else msg_unknown_error
                         | Thrown \<Rightarrow> msg_unknown_error)\<rparr>)"

function batch_loop :: "'w env \<Rightarrow> jsstring list \<Rightarrow> nat \<Rightarrow> ExtractedWeChatArticle list \<Rightarrow>
    'w world \<Rightarrow> ExtractedWeChatArticle list \<times> 'w world" where
  "batch_loop env validUrls i results w =
     (if i < length validUrls
      then (let batch = take concurrencyLimit (drop i validUrls);
                (batchResults, w1) = extract_each env batch w;
                results' = results @ map2 settled_result batch batchResults;
                w2 = (if i + concurrencyLimit < length validUrls then delay 3000 w1 else w1)
            in batch_loop env validUrls (i + concurrencyLimit) results' w2)
      else (results, w))"
  by pat_completeness auto
termination
  by (relation "measure (\<lambda>(env, validUrls, i, results, w). length validUrls - i)")
     (auto simp: concurrencyLimit_def)

declare batch_loop.simps [simp del]

definition extractBatchWeChatArticles :: "'w env \<Rightarrow> jsstring list \<Rightarrow> 'w world \<Rightarrow>
    ExtractedWeChatArticle list \<times> 'w world" where
  "extractBatchWeChatArticles env urls w =
     (let validUrls = filter (\<lambda>u. isWeChatArticleUrl env u) urls;
          invalidUrls = filter (\<lambda>u. \<not> isWeChatArticleUrl env u) urls;
          results = map invalid_result invalidUrls
      in batch_loop env validUrls 0 results w)"

section \<open>The summarizer client\<close>

record SummaryResult =
  summaryContent :: json
  keyPoints :: json
  sentiment :: json
  category :: json

text \<open>
  The field \<open>content\<close> of the interface \<open>SummaryResult\<close> is \<open>summaryContent\<close> here.  The
  fields hold whatever \<open>JSON.parse\<close> found: nothing checks at run time that the model
  answered with strings.  A number is a double, kept as a real: only whether it is zero is
  read.
\<close>

definition match_braces :: "jsstring \<Rightarrow> jsstring option" where
  \<comment> \<open>\<^verbatim>\<open>response.match(/\{[\s\S]*\}/)\<close>: from the first opening brace to the last closing
      brace behind it\<close>
  "match_braces response =
     (let r = dropWhile (\<lambda>c. c \<noteq> 0x7B) response
      in if r \<noteq> [] \<and> 0x7D \<in> set (tl r)
         then Some (rev (dropWhile (\<lambda>c. c \<noteq> 0x7D) (rev r)))
         else None)"

definition truthy :: "json \<Rightarrow> bool" where
  "truthy v =
     (case v of
        JNull \<Rightarrow> False
      | JBool b \<Rightarrow> b
      | JNum n \<Rightarrow> n \<noteq> 0
      | JStr t \<Rightarrow> t \<noteq> []
      | JArr _ \<Rightarrow> True
      | JObj _ \<Rightarrow> True)"

definition property :: "json \<Rightarrow> jsstring \<Rightarrow> json option" where
  \<comment> \<open>\<open>parsed.name\<close> on a value that is not \<open>null\<close>; \<open>None\<close> is \<open>undefined\<close>\<close>
  "property v name = (case v of JObj kvs \<Rightarrow> map_of kvs name | _ \<Rightarrow> None)"

definition or_else :: "json option \<Rightarrow> json \<Rightarrow> json" where
  \<comment> \<open>\<open>value || default\<close>\<close>
  "or_else v d = (case v of Some x \<Rightarrow> if truthy x then x else d | None \<Rightarrow> d)"

definition fallbackParsing :: "jsstring \<Rightarrow> SummaryResult" where
  "fallbackParsing response =
     (let lines = filter (\<lambda>line. trim line \<noteq> []) (split_on LF response)
      in \<lparr>summaryContent = JStr (take 200 (join [SP] (take 3 lines)) @ js ''...''),
          keyPoints = JArr (map JStr (take 3 lines)),
          sentiment = JStr (js ''neutral''),
          category = JStr msg_uncategorized\<rparr>)"

definition parse_matched :: "'w env \<Rightarrow> jsstring \<Rightarrow> js_exn + SummaryResult" where
  \<comment> \<open>the branch \<open>if (jsonMatch)\<close>: \<open>JSON.parse\<close> may throw, and so does reading a property
      of \<open>null\<close>\<close>
  "parse_matched env matched =
     (case JSON_parse env matched of
        Inl e \<Rightarrow> Inl e
      | Inr parsed \<Rightarrow>
          (case parsed of
             JNull \<Rightarrow> Inl (Error (js ''Cannot read properties of null''))
           | _ \<Rightarrow>
               Inr \<lparr>summaryContent = or_else (property parsed (js ''summary'')) (JStr []),
                    keyPoints = or_else (property parsed (js ''keyPoints'')) (JArr []),
                    sentiment = or_else (property parsed (js ''sentiment'')) (JStr (js ''neutral'')),
                    category = or_else (property parsed (js ''category'')) (JStr msg_uncategorized)\<rparr>))"

definition parseSummaryResponse :: "'w env \<Rightarrow> jsstring \<Rightarrow> SummaryResult" where
  "parseSummaryResponse env response =
     (case match_braces response of
        Some matched \<Rightarrow>
          (case parse_matched env matched of
             Inr r \<Rightarrow> r
           | Inl e \<Rightarrow> fallbackParsing response)
      | None \<Rightarrow> fallbackParsing response)"

definition summarizeArticle :: "'w env \<Rightarrow> jsstring \<Rightarrow> jsstring \<Rightarrow> 'w world \<Rightarrow>
    (js_exn + SummaryResult) \<times> 'w world" where
  \<comment> \<open>the request carries the fixed prompt around the title and the content; \<open>axios_post\<close>
      stands for the request and the reading of \<open>choices[0].message.content\<close>\<close>
  "summarizeArticle env t c w =
     (let (r, out) = axios_post env t c (outside w);
          w' = w\<lparr>outside := out, events := events w @ [Post t c]\<rparr>
      in (case r of
            Inr aiResponse \<Rightarrow> (Inr (parseSummaryResponse env aiResponse), w')
          | Inl e \<Rightarrow>
              (Inl (Error (js ''Failed to summarize article: '' @ String_of env e)), w')))"

section \<open>The batch orchestrator\<close>

text \<open>
  \<open>prisma.<table>.upsert({where, update, create})\<close> on a table with a unique key: the row
  of the key is changed by \<open>update\<close> when there is one and made by \<open>create\<close> (with a new
  id) when there is none; the call may throw instead, and then writes nothing.
\<close>

definition upsert :: "'w env \<Rightarrow> ('k \<rightharpoonup> 'r) \<Rightarrow> 'k \<Rightarrow> ('r \<Rightarrow> 'r) \<Rightarrow> (nat \<Rightarrow> 'r) \<Rightarrow> 'w \<Rightarrow>
    (js_exn + 'r \<times> ('k \<rightharpoonup> 'r)) \<times> 'w" where
  "upsert env table key update create out =
     (case db_fault env out of
        (Some e, out') \<Rightarrow> (Inl e, out')
      | (None, out') \<Rightarrow>
          (let row = (case table key of
                        Some old \<Rightarrow> update old
                      | None \<Rightarrow> create (new_id env out'))
           in (Inr (row, table(key \<mapsto> row)), out')))"

definition account_upsert :: "'w env \<Rightarrow> jsstring \<Rightarrow> 'w world \<Rightarrow> (js_exn + account_row) \<times> 'w world"
  where
  "account_upsert env accountName w =
     (case upsert env (weChatAccount w) accountName (\<lambda>old. old)
             (\<lambda>i. \<lparr>account_id = i, account_name = accountName,
                   account_displayName = accountName,
                   account_description = msg_created_by_import\<rparr>)
             (outside w) of
        (Inl e, out) \<Rightarrow> (Inl e, w\<lparr>outside := out\<rparr>)
      | (Inr (row, table), out) \<Rightarrow> (Inr row, w\<lparr>outside := out, weChatAccount := table\<rparr>))"

definition date_or_now :: "'w env \<Rightarrow> 'w world \<Rightarrow> js_date option \<Rightarrow> js_date" where
  \<comment> \<open>\<open>article.publishDate || new Date()\<close>\<close>
  "date_or_now env w d = (case d of Some date \<Rightarrow> date | None \<Rightarrow> Now (clock env (outside w)))"

definition author_or :: "jsstring option \<Rightarrow> jsstring \<Rightarrow> jsstring" where
  \<comment> \<open>\<open>article.author || accountName\<close>\<close>
  "author_or a accountName = (case a of Some n \<Rightarrow> if n \<noteq> [] then n else accountName | None \<Rightarrow> accountName)"

definition article_upsert :: "'w env \<Rightarrow> jsstring \<Rightarrow> ExtractedWeChatArticle \<Rightarrow> account_row \<Rightarrow>
    'w world \<Rightarrow> (js_exn + article_row) \<times> 'w world" where
  "article_upsert env accountName a account w =
     (case upsert env (article w) (url a)
             (\<lambda>old. old\<lparr>article_title := title a,
                        article_content := content a,
                        article_publishDate := date_or_now env w (publishDate a),
                        article_author := author_or (author a) accountName,
                        article_accountId := account_id account\<rparr>)
             (\<lambda>i. \<lparr>article_id = i,
                   article_title = title a,
                   article_content = content a,
                   article_url = url a,
                   article_publishDate = date_or_now env w (publishDate a),
                   article_author = author_or (author a) accountName,
                   article_accountId = account_id account\<rparr>)
             (outside w) of
        (Inl e, out) \<Rightarrow> (Inl e, w\<lparr>outside := out\<rparr>)
      | (Inr (row, table), out) \<Rightarrow> (Inr row, w\<lparr>outside := out, article := table\<rparr>))"

definition summary_upsert :: "'w env \<Rightarrow> SummaryResult \<Rightarrow> article_row \<Rightarrow> 'w world \<Rightarrow>
    (js_exn + summary_row) \<times> 'w world" where
  \<comment> \<open>the three text columns take strings only: the client refuses another value before
      it reaches the database\<close>
  "summary_upsert env summaryResult savedArticle w =
     (case (summaryContent summaryResult, sentiment summaryResult, category summaryResult) of
        (JStr c, JStr s, JStr g) \<Rightarrow>
          (case upsert env (summary w) (article_id savedArticle)
                  (\<lambda>old. old\<lparr>summary_content := c,
                             summary_keyPoints := JSON_stringify env (keyPoints summaryResult),
                             summary_sentiment := s,
                             summary_category := g\<rparr>)
                  (\<lambda>i. \<lparr>summary_articleId = article_id savedArticle,
                        summary_content = c,
                        summary_keyPoints = JSON_stringify env (keyPoints summaryResult),
                        summary_sentiment = s,
                        summary_category = g\<rparr>)
                  (outside w) of
             (Inl e, out) \<Rightarrow> (Inl e, w\<lparr>outside := out\<rparr>)
           | (Inr (row, table), out) \<Rightarrow> (Inr row, w\<lparr>outside := out, summary := table\<rparr>))
      | _ \<Rightarrow> (Inl (db_validation_error env), w))"

definition summarize_and_save :: "'w env \<Rightarrow> jsstring \<Rightarrow> ExtractedWeChatArticle \<Rightarrow> 'w world \<Rightarrow>
    (js_exn + SummaryResult) \<times> 'w world" where
  \<comment> \<open>the inner \<open>try\<close> block of the route, up to the last upsert\<close>
  "summarize_and_save env accountName a w =
     (case summarizeArticle env (title a) (content a) w of
        (Inl e, w1) \<Rightarrow> (Inl e, w1)
      | (Inr summaryResult, w1) \<Rightarrow>
          (case account_upsert env accountName w1 of
             (Inl e, w2) \<Rightarrow> (Inl e, w2)
           | (Inr account, w2) \<Rightarrow>
               (case article_upsert env accountName a account w2 of
                  (Inl e, w3) \<Rightarrow> (Inl e, w3)
                | (Inr savedArticle, w3) \<Rightarrow>
                    (case summary_upsert env summaryResult savedArticle w3 of
                       (Inl e, w4) \<Rightarrow> (Inl e, w4)
                     | (Inr _, w4) \<Rightarrow> (Inr summaryResult, w4)))))"

record result_entry =
  entry_url :: jsstring
  entry_title :: jsstring
  entry_summary :: "SummaryResult option"
  entry_error :: "jsstring option"

record BatchSummarizeRequest =
  urls :: "jsstring list option"
  accountName :: "jsstring option"

text \<open>
  In a request, \<open>urls = None\<close> is a body without \<open>urls\<close> or with one that is not an array,
  and \<open>accountName = None\<close> a body without an account name.
\<close>

record BatchSummarizeResponse =
  success :: bool
  results :: "result_entry list"
  totalProcessed :: nat
  successCount :: nat
  failCount :: nat

datatype http_response = Json BatchSummarizeResponse | Status nat jsstring

fun process_articles :: "'w env \<Rightarrow> jsstring \<Rightarrow> ExtractedWeChatArticle list \<Rightarrow>
    result_entry list \<times> nat \<times> nat \<times> 'w world \<Rightarrow> result_entry list \<times> nat \<times> nat \<times> 'w world" where
  \<comment> \<open>the loop \<open>for (const article of extractedArticles)\<close> on \<open>results\<close>, \<open>successCount\<close>,
      \<open>failCount\<close> and the world\<close>
  "process_articles env name [] st = st"
| "process_articles env name (a # rest) (res, sc, fc, w) =
     (if error a \<noteq> None \<and> error a \<noteq> Some []
      then process_articles env name rest
             (res @ [\<lparr>entry_url = url a, entry_title = title a, entry_summary = None,
                      entry_error = error a\<rparr>],
              sc, fc + 1, w)
      else (case summarize_and_save env name a w of
              (Inr summaryResult, w1) \<Rightarrow>
                process_articles env name rest
                  (res @ [\<lparr>entry_url = url a, entry_title = title a,
                           entry_summary = Some summaryResult, entry_error = None\<rparr>],
                   sc + 1, fc, delay 1000 w1)
            | (Inl e, w1) \<Rightarrow>
                process_articles env name rest
                  (res @ [\<lparr>entry_url = url a, entry_title = title a, entry_summary = None,
                           entry_error = Some (msg_summarize_failed @ message_of e)\<rparr>],
                   sc, fc + 1, delay 1000 w1)))"

definition batch_summarize :: "'w env \<Rightarrow> BatchSummarizeRequest \<Rightarrow> 'w world \<Rightarrow>
    http_response \<times> 'w world" where
  \<comment> \<open>\<open>router.post('/')\<close>\<close>
  "batch_summarize env req w =
     (case urls req of
        None \<Rightarrow> (Status 400 msg_need_urls, w)
      | Some us \<Rightarrow>
          if us = [] then (Status 400 msg_need_urls, w)
          else if 20 < length us then (Status 400 msg_too_many, w)
          else (let name = (case accountName req of Some n \<Rightarrow> n | None \<Rightarrow> label_batch_import);
                    (extractedArticles, w1) = extractBatchWeChatArticles env us w;
                    (res, sc, fc, w2) = process_articles env name extractedArticles ([], 0, 0, w1)
                in (Json \<lparr>success = True, results = res, totalProcessed = length us,
                          successCount = sc, failCount = fc\<rparr>, w2)))"

section \<open>Auxiliary notions\<close>

text \<open>
  A text is collapsed when its only white space is the space character and no two spaces
  stand side by side: the shape \<open>replace_ws_runs\<close> gives to every text.
\<close>

fun collapsed :: "jsstring \<Rightarrow> bool" where
  "collapsed [] = True"
| "collapsed [c] = (is_js_space c \<longrightarrow> c = SP)"
| "collapsed (a # b # cs) = ((is_js_space a \<longrightarrow> a = SP \<and> \<not> is_js_space b) \<and> collapsed (b # cs))"

text \<open>The number of capture groups of a pattern.\<close>

fun n_groups :: "pattern \<Rightarrow> nat" where
  "n_groups [] = 0"
| "n_groups (Digits lo hi # its) = Suc (n_groups its)"
| "n_groups (Lit c # its) = n_groups its"

text \<open>
  The batch fetcher in the words of the specification: the valid URLs are cut into windows
  of a fixed size, the windows are run one after the other, each URL of a window in its
  order, with a pause of 3000 ms between two windows.
\<close>

function chunks :: "nat \<Rightarrow> 'a list \<Rightarrow> 'a list list" where
  "chunks n xs = (if n = 0 \<or> xs = [] then [] else take n xs # chunks n (drop n xs))"
  by pat_completeness auto
termination
  by (relation "measure (\<lambda>(n, xs). length xs)") auto

declare chunks.simps [simp del]

fun extract_in_order :: "'w env \<Rightarrow> jsstring list \<Rightarrow> 'w world \<Rightarrow>
    ExtractedWeChatArticle list \<times> 'w world" where
  "extract_in_order env [] w = ([], w)"
| "extract_in_order env (u # us) w =
     (let (r, w1) = extractSingleWeChatArticle env u w;
          (rs, w2) = extract_in_order env us w1
      in (r # rs, w2))"

fun run_windows :: "'w env \<Rightarrow> jsstring list list \<Rightarrow> 'w world \<Rightarrow>
    ExtractedWeChatArticle list \<times> 'w world" where
  "run_windows env [] w = ([], w)"
| "run_windows env (window # rest) w =
     (let (rs, w1) = extract_in_order env window w;
          w2 = (if rest \<noteq> [] then delay 3000 w1 else w1);
          (rss, w3) = run_windows env rest w2
      in (rs @ rss, w3))"

fun window_events :: "jsstring list list \<Rightarrow> event list" where
  "window_events [] = []"
| "window_events (window # rest) =
     map Get window @ (if rest \<noteq> [] then [Delay 3000] else []) @ window_events rest"

text \<open>
  Example inputs: three article URLs, a page with a title, a date and three blocks, a page
  of four paragraphs of 11 characters, and an outside world in which the third article cannot
  be fetched and the language model answers without JSON.
\<close>

definition demo_url :: jsstring where
  "demo_url = js ''https://mp.weixin.qq.com/s/abc''"

definition brief_url :: jsstring where
  "brief_url = js ''https://mp.weixin.qq.com/s/brief''"

definition down_url :: jsstring where
  "down_url = js ''https://mp.weixin.qq.com/s/down''"

definition demo_page :: dom where
  "demo_page =
     \<lparr>first_text = (\<lambda>selector.
        if selector = ''#activity-name'' then js '' A title ''
        else if selector = ''#publish_time'' then js ''2024-03-07''
        else []),
      first_element = (\<lambda>selector.
        if selector = ''#js_content''
        then Some \<lparr>blocks = [js ''The first paragraph of the article.'', js ''short'',
                               js '' Another paragraph, long enough.''],
                     element_text = js ''unused''\<rparr>
        else None)\<rparr>"

definition brief_page :: dom where
  "brief_page =
     \<lparr>first_text = (\<lambda>selector. []),
      first_element = (\<lambda>selector.
        if selector = ''.rich_media_content''
        then Some \<lparr>blocks = [js ''Paragraph 1'', js ''Paragraph 2'', js ''Paragraph 3'',
                               js ''Paragraph 4''],
                     element_text = js ''unused''\<rparr>
        else None)\<rparr>"

definition demo_env :: "unit env" where
  "demo_env =
     \<lparr>URL_parse = (\<lambda>u.
        if u = demo_url then Some \<lparr>hostname = js ''mp.weixin.qq.com'', pathname = js ''/s/abc''\<rparr>
        else if u = brief_url
        then Some \<lparr>hostname = js ''mp.weixin.qq.com'', pathname = js ''/s/brief''\<rparr>
        else if u = down_url
        then Some \<lparr>hostname = js ''mp.weixin.qq.com'', pathname = js ''/s/down''\<rparr>
        else if u = js ''https://example.com/s/abc''
        then Some \<lparr>hostname = js ''example.com'', pathname = js ''/s/abc''\<rparr>
        else None),
      axios_get = (\<lambda>u out.
        if u = down_url then (Inl (Error (js ''timeout of 20000ms exceeded'')), out)
        else if u = brief_url then (Inr (js ''brief''), out)
        else (Inr (js ''page''), out)),
      cheerio_load = (\<lambda>html. if html = js ''brief'' then Inr brief_page else Inr demo_page),
      getFullYear = (\<lambda>out. 2026),
      clock = (\<lambda>out. 1000),
      axios_post = (\<lambda>t c out. (Inr (js ''no json''), out)),
      JSON_parse = (\<lambda>t. Inl (Error (js ''Unexpected token''))),
      JSON_stringify = (\<lambda>v. js ''[]''),
      String_of = message_of,
      db_fault = (\<lambda>out. (None, out)),
      db_validation_error = Error (js ''Invalid value''),
      new_id = (\<lambda>out. 1)\<rparr>"

definition demo_world :: "unit world" where
  "demo_world =
     \<lparr>outside = (), events = [], weChatAccount = Map.empty, article = Map.empty,
      summary = Map.empty\<rparr>"

text \<open>What the page extractor returns for the first example page.\<close>

definition demo_article :: ExtractedWeChatArticle where
  "demo_article =
     \<lparr>url = demo_url, title = js ''A title'',
      content = js ''The first paragraph of the article. Another paragraph, long enough.'',
      author = Some [], publishDate = Some (New_Date 2024 2 7), error = None\<rparr>"

text \<open>An article row that is already stored, and the account of the default label.\<close>

definition stored_article :: article_row where
  "stored_article =
     \<lparr>article_id = 7, article_title = js ''An old title'', article_content = js ''old'',
      article_url = demo_url, article_publishDate = New_Date 2020 0 1,
      article_author = js ''someone'', article_accountId = 3\<rparr>"

definition demo_account :: account_row where
  "demo_account =
     \<lparr>account_id = 1, account_name = label_batch_import,
      account_displayName = label_batch_import, account_description = msg_created_by_import\<rparr>"

text \<open>
  An outside world in which every request fails with an \<open>Error\<close> whose message is empty, and
  an answer of the language model without JSON: four lines of text, with an empty line and
  a line of spaces between the first and the second.
\<close>

definition silent_env :: "unit env" where
  "silent_env = demo_env\<lparr>axios_get := (\<lambda>u out. (Inl (Error []), out))\<rparr>"

definition demo_response :: jsstring where
  "demo_response =
     js ''The article explains how the batch fetcher groups its requests in pairs of two.''
     @ [LF, LF] @ js ''   '' @ [LF]
     @ js ''Between two groups it waits three seconds so that the site is not overloaded.''
     @ [LF]
     @ js ''Every article that was fetched is then summarised, one after the other, in order.''
     @ [LF] @ js ''A fourth line that the fallback leaves out.''"

section \<open>Facts about the content cleaner\<close>

lemma is_js_space_SP: "is_js_space SP" by (simp add: is_js_space_def SP_def)
lemma is_js_space_LF: "is_js_space LF" by (simp add: is_js_space_def LF_def)
lemma SP_neq_LF: "SP \<noteq> LF" by (simp add: SP_def LF_def)

lemma replace_ws_runs_space:
  "c \<in> set (replace_ws_runs s) \<Longrightarrow> is_js_space c \<Longrightarrow> c = SP"
  by (induction s rule: replace_ws_runs.induct) (auto split: if_splits)

lemma replace_ws_runs_no_LF: "LF \<notin> set (replace_ws_runs s)"
  using replace_ws_runs_space [of LF s] is_js_space_LF SP_neq_LF by auto

lemma replace_blank_lines_id: "LF \<notin> set s \<Longrightarrow> replace_blank_lines s = s"
  by (induction s) auto

lemma cleanContent_eq: "cleanContent s = take maxContentLength (trim (replace_ws_runs s))"
  by (simp add: cleanContent_def replace_blank_lines_id replace_ws_runs_no_LF)

lemma set_trim_subset: "set (trim xs) \<subseteq> set xs"
  by (auto simp: trim_def dest!: set_dropWhileD)

lemma cleanContent_no_LF: "LF \<notin> set (cleanContent s)"
proof -
  have "set (cleanContent s) \<subseteq> set (replace_ws_runs s)"
    unfolding cleanContent_eq using set_take_subset set_trim_subset by fast
  then show ?thesis using replace_ws_runs_no_LF by blast
qed

lemma rev_dropWhile_rev_take:
  "rev (dropWhile P (rev xs)) = take (length xs - length (takeWhile P (rev xs))) xs"
proof -
  have "rev xs = takeWhile P (rev xs) @ dropWhile P (rev xs)" by simp
  then have "xs = rev (dropWhile P (rev xs)) @ rev (takeWhile P (rev xs))"
    by (metis rev_append rev_rev_ident)
  then have "take (length (rev (dropWhile P (rev xs)))) xs = rev (dropWhile P (rev xs))"
    by (metis append_eq_conv_conj)
  moreover have "length (rev (dropWhile P (rev xs))) = length xs - length (takeWhile P (rev xs))"
    by (metis length_rev length_append takeWhile_dropWhile_id add_diff_cancel_left')
  ultimately show ?thesis by simp
qed

lemma collapsed_nonspace_Cons: "\<not> is_js_space c \<Longrightarrow> collapsed (c # xs) = collapsed xs"
  by (cases xs) auto

lemma collapsed_tl: "collapsed (x # xs) \<Longrightarrow> collapsed xs"
  by (cases xs) auto

lemma collapsed_replace_ws_runs: "collapsed (replace_ws_runs s)"
proof (induction s rule: replace_ws_runs.induct)
  case 1
  show ?case by simp
next
  case (2 c cs)
  show ?case
  proof (cases "is_js_space c")
    case False
    with 2 show ?thesis by (simp add: collapsed_nonspace_Cons)
  next
    case True
    show ?thesis
    proof (cases "dropWhile is_js_space cs")
      case Nil
      with True have "replace_ws_runs (c # cs) = [SP]"
        by (simp del: dropWhile_eq_Nil_conv)
      then show ?thesis by simp
    next
      case (Cons y ys)
      then have ny: "\<not> is_js_space y" by (metis hd_dropWhile list.sel(1) list.distinct(1))
      from 2(1) [OF True] Cons ny have "collapsed (y # replace_ws_runs ys)" by simp
      with True Cons ny show ?thesis by simp
    qed
  qed
qed

lemma replace_ws_runs_collapsed: "collapsed xs \<Longrightarrow> replace_ws_runs xs = xs"
  by (induction xs rule: collapsed.induct) auto

lemma collapsed_take: "collapsed xs \<Longrightarrow> collapsed (take n xs)"
proof (induction xs arbitrary: n rule: collapsed.induct)
  case 1
  show ?case by simp
next
  case (2 c)
  then show ?case by (cases n) auto
next
  case (3 a b cs)
  show ?case
  proof (cases n)
    case 0
    then show ?thesis by simp
  next
    case (Suc m)
    from 3 have "collapsed (take m (b # cs))" by simp
    with 3(2) Suc show ?thesis by (cases m) auto
  qed
qed

lemma collapsed_dropWhile: "collapsed xs \<Longrightarrow> collapsed (dropWhile P xs)"
  by (induction xs) (auto dest: collapsed_tl)

lemma collapsed_trim: "collapsed xs \<Longrightarrow> collapsed (trim xs)"
  unfolding trim_def rev_dropWhile_rev_take by (intro collapsed_take collapsed_dropWhile)

lemma collapsed_cleanContent: "collapsed (cleanContent s)"
  unfolding cleanContent_eq by (intro collapsed_take collapsed_trim collapsed_replace_ws_runs)

lemma trim_head: "trim xs = [] \<or> \<not> is_js_space (hd (trim xs))"
proof -
  let ?z = "dropWhile is_js_space xs"
  have z: "?z = [] \<or> \<not> is_js_space (hd ?z)" using hd_dropWhile [of is_js_space xs] by blast
  have "trim xs = take (length ?z - length (takeWhile is_js_space (rev ?z))) ?z"
    unfolding trim_def by (rule rev_dropWhile_rev_take)
  then obtain k where k: "trim xs = take k ?z" by blast
  show ?thesis
  proof (cases "trim xs = []")
    case True then show ?thesis by simp
  next
    case False
    with k have "hd (trim xs) = hd ?z" "?z \<noteq> []" by auto
    with z show ?thesis by metis
  qed
qed

lemma trim_last: "trim xs = [] \<or> \<not> is_js_space (last (trim xs))"
proof (cases "trim xs = []")
  case True then show ?thesis by simp
next
  case False
  let ?d = "dropWhile is_js_space (rev (dropWhile is_js_space xs))"
  from False have "?d \<noteq> []" by (simp add: trim_def)
  then have "\<not> is_js_space (hd ?d)" using hd_dropWhile by blast
  moreover have "last (trim xs) = hd ?d" using \<open>?d \<noteq> []\<close> by (simp add: trim_def last_rev)
  ultimately show ?thesis by simp
qed

lemma cleanContent_head: "cleanContent s = [] \<or> \<not> is_js_space (hd (cleanContent s))"
proof (cases "cleanContent s = []")
  case True then show ?thesis by simp
next
  case False
  then have "hd (cleanContent s) = hd (trim (replace_ws_runs s))" "trim (replace_ws_runs s) \<noteq> []"
    by (auto simp: cleanContent_eq)
  then show ?thesis using trim_head [of "replace_ws_runs s"] by simp
qed

lemma length_cleanContent: "length (cleanContent s) \<le> maxContentLength"
  by (simp add: cleanContent_def)

lemma collapsed_no_LF: "collapsed xs \<Longrightarrow> LF \<notin> set xs"
  using is_js_space_LF SP_neq_LF by (induction xs rule: collapsed.induct) auto

lemma cleanContent_twice:
  "cleanContent (cleanContent s) = rev (dropWhile is_js_space (rev (cleanContent s)))"
proof -
  let ?y = "cleanContent s"
  have 1: "replace_ws_runs ?y = ?y" by (rule replace_ws_runs_collapsed [OF collapsed_cleanContent])
  have 2: "dropWhile is_js_space ?y = ?y"
    using cleanContent_head [of s] by (cases ?y) auto
  have "length (rev (dropWhile is_js_space (rev ?y))) \<le> length ?y"
    using length_dropWhile_le [of is_js_space "rev ?y"] by simp
  then have 3: "length (rev (dropWhile is_js_space (rev ?y))) \<le> maxContentLength"
    using length_cleanContent [of s] by linarith
  have "cleanContent ?y = take maxContentLength (trim ?y)"
    using cleanContent_eq [of ?y] 1 by simp
  also have "trim ?y = rev (dropWhile is_js_space (rev ?y))" by (simp add: trim_def 2)
  finally show ?thesis using 3 by simp
qed

lemma cleanContent_idem_iff:
  "cleanContent (cleanContent s) = cleanContent s \<longleftrightarrow>
     cleanContent s = [] \<or> \<not> is_js_space (last (cleanContent s))"
proof (cases "cleanContent s = []")
  case True
  then show ?thesis using cleanContent_twice [of s] by simp
next
  case False
  let ?y = "cleanContent s"
  from False have r: "rev ?y = last ?y # rev (butlast ?y)"
    by (metis append_butlast_last_id rev_append append_Nil rev_singleton_conv append_Cons)
  show ?thesis
  proof (cases "is_js_space (last ?y)")
    case False
    then have "dropWhile is_js_space (rev ?y) = rev ?y" by (simp add: r)
    with False \<open>?y \<noteq> []\<close> show ?thesis by (simp add: cleanContent_twice)
  next
    case True
    then have "dropWhile is_js_space (rev ?y) = dropWhile is_js_space (rev (butlast ?y))"
      by (simp add: r)
    then have "length (rev (dropWhile is_js_space (rev ?y))) \<le> length (butlast ?y)"
      using length_dropWhile_le [of is_js_space "rev (butlast ?y)"] by simp
    moreover from \<open>?y \<noteq> []\<close> have "length ?y = Suc (length (butlast ?y))"
      by (metis append_butlast_last_id length_append_singleton)
    moreover have "length (cleanContent ?y) = length (rev (dropWhile is_js_space (rev ?y)))"
      by (simp only: cleanContent_twice)
    ultimately have "length (cleanContent ?y) < length ?y"
      by linarith
    with True \<open>?y \<noteq> []\<close> show ?thesis by auto
  qed
qed

lemma cleanContent_untruncated_last:
  assumes "length (trim (replace_ws_runs s)) \<le> maxContentLength"
  shows "cleanContent s = [] \<or> \<not> is_js_space (last (cleanContent s))"
proof -
  from assms have "cleanContent s = trim (replace_ws_runs s)" by (simp add: cleanContent_eq)
  then show ?thesis using trim_last [of "replace_ws_runs s"] by simp
qed

lemma length_replace_ws_runs: "length (replace_ws_runs s) \<le> length s"
proof (induction s rule: replace_ws_runs.induct)
  case 1
  show ?case by simp
next
  case (2 c cs)
  have "length (dropWhile is_js_space cs) \<le> length cs" by (rule length_dropWhile_le)
  with 2 show ?case by (cases "is_js_space c") auto
qed

lemma length_trim: "length (trim s) \<le> length s"
proof -
  have "length (trim s) \<le> length (dropWhile is_js_space s)"
    unfolding trim_def rev_dropWhile_rev_take by simp
  also have "\<dots> \<le> length s" by (rule length_dropWhile_le)
  finally show ?thesis .
qed

lemma replace_ws_runs_replicate:
  "\<not> is_js_space a \<Longrightarrow> replace_ws_runs (replicate n a @ xs) = replicate n a @ replace_ws_runs xs"
  by (induction n) auto

lemma trim_id: "xs \<noteq> [] \<Longrightarrow> \<not> is_js_space (hd xs) \<Longrightarrow> \<not> is_js_space (last xs) \<Longrightarrow> trim xs = xs"
proof -
  assume a: "xs \<noteq> []" "\<not> is_js_space (hd xs)" "\<not> is_js_space (last xs)"
  then have 1: "dropWhile is_js_space xs = xs" by (cases xs) auto
  from a have "rev xs \<noteq> []" "\<not> is_js_space (hd (rev xs))" by (auto simp: hd_rev)
  then have "dropWhile is_js_space (rev xs) = rev xs" by (cases "rev xs") auto
  with 1 show ?thesis by (simp add: trim_def)
qed

lemma cleanContent_long:
  "cleanContent (replicate 14999 0x61 @ [0x20, 0x62]) = replicate 14999 0x61 @ [0x20]"
proof -
  have na: "\<not> is_js_space 0x61" and nb: "\<not> is_js_space 0x62" and sp: "is_js_space 0x20"
    by (simp_all add: is_js_space_def)
  have "replace_ws_runs (replicate 14999 0x61 @ [0x20, 0x62]) = replicate 14999 0x61 @ [0x20, 0x62]"
    using na nb sp by (simp add: replace_ws_runs_replicate SP_def)
  moreover have "trim (replicate 14999 0x61 @ [0x20, 0x62]) = replicate 14999 0x61 @ [0x20, 0x62]"
    using na nb by (intro trim_id) (simp_all add: hd_append)
  ultimately show ?thesis by (simp add: cleanContent_eq maxContentLength_def)
qed

section \<open>Facts about the date parser\<close>

lemma first_some_None: "first_some f ks = None \<longleftrightarrow> (\<forall>k\<in>set ks. f k = None)"
  by (induction ks) (auto split: option.splits)

lemma first_some_Some: "first_some f ks = Some r \<Longrightarrow> \<exists>k\<in>set ks. f k = Some r"
  by (induction ks) (auto split: option.splits)

lemma first_some_range_Some:
  "first_some f (rev [lo..<Suc hi]) = Some r \<Longrightarrow> \<exists>k. lo \<le> k \<and> k \<le> hi \<and> f k = Some r"
  by (drule first_some_Some) (auto simp del: upt_Suc)

lemma first_some_range_not_None:
  "lo \<le> k \<Longrightarrow> k \<le> hi \<Longrightarrow> f k \<noteq> None \<Longrightarrow> first_some f (rev [lo..<Suc hi]) \<noteq> None"
  unfolding first_some_None by (auto simp del: upt_Suc)

lemma match_here_Digits:
  "match_here (Digits lo hi # its) s =
     first_some
       (\<lambda>k. if k \<le> length (takeWhile is_js_digit s)
            then map_option (\<lambda>(m, gs). (take k s @ m, take k s # gs))
                   (match_here its (drop k s))
            else None)
       (rev [lo..<Suc hi])"
  by (simp del: upt_Suc)

lemma match_here_groups:
  "match_here p s = Some (m, gs) \<Longrightarrow> length gs = n_groups p"
proof (induction p arbitrary: s m gs)
  case Nil
  then show ?case by simp
next
  case (Cons it its)
  show ?case
  proof (cases it)
    case (Lit c)
    with Cons.prems obtain x xs m' where "s = x # xs" "match_here its xs = Some (m', gs)"
      by (auto split: list.splits if_splits)
    with Cons.IH Lit show ?thesis by simp
  next
    case (Digits lo hi)
    with Cons.prems have "first_some
       (\<lambda>k. if k \<le> length (takeWhile is_js_digit s)
            then map_option (\<lambda>(m, gs). (take k s @ m, take k s # gs))
                   (match_here its (drop k s))
            else None)
       (rev [lo..<Suc hi]) = Some (m, gs)"
      by (simp only: match_here_Digits)
    from first_some_range_Some [OF this] obtain k where
      "(if k \<le> length (takeWhile is_js_digit s)
        then map_option (\<lambda>(m, gs). (take k s @ m, take k s # gs)) (match_here its (drop k s))
        else None) = Some (m, gs)"
      by blast
    then obtain m' gs' where "match_here its (drop k s) = Some (m', gs')" "gs = take k s # gs'"
      by (auto split: if_splits)
    with Cons.IH Digits show ?thesis by simp
  qed
qed

lemma js_match_length: "js_match p s = Some m \<Longrightarrow> length m = Suc (n_groups p)"
  by (induction s) (auto split: option.splits dest: match_here_groups)

lemma match_here_sound:
  "match_here p s = Some (m, gs) \<Longrightarrow> m \<in> pattern_lang p \<and> (\<exists>r. s = m @ r)"
proof (induction p arbitrary: s m gs)
  case Nil
  then show ?case by simp
next
  case (Cons it its)
  show ?case
  proof (cases it)
    case (Lit c)
    with Cons.prems obtain xs m' where *: "s = c # xs" "match_here its xs = Some (m', gs)" "m = c # m'"
      by (auto split: list.splits if_splits)
    from Cons.IH [OF *(2)] * Lit show ?thesis by auto
  next
    case (Digits lo hi)
    with Cons.prems have "first_some
       (\<lambda>k. if k \<le> length (takeWhile is_js_digit s)
            then map_option (\<lambda>(m, gs). (take k s @ m, take k s # gs))
                   (match_here its (drop k s))
            else None)
       (rev [lo..<Suc hi]) = Some (m, gs)"
      by (simp only: match_here_Digits)
    from first_some_range_Some [OF this] obtain k where k: "lo \<le> k" "k \<le> hi" and
      "(if k \<le> length (takeWhile is_js_digit s)
        then map_option (\<lambda>(m, gs). (take k s @ m, take k s # gs)) (match_here its (drop k s))
        else None) = Some (m, gs)"
      by blast
    then obtain m' gs' where *: "k \<le> length (takeWhile is_js_digit s)"
      "match_here its (drop k s) = Some (m', gs')" "m = take k s @ m'"
      by (auto split: if_splits)
    from *(1) have "take k (takeWhile is_js_digit s @ dropWhile is_js_digit s)
        = take k (takeWhile is_js_digit s)"
      by (simp del: takeWhile_dropWhile_id)
    then have tk: "take k s = take k (takeWhile is_js_digit s)"
      by (simp only: takeWhile_dropWhile_id)
    have "\<forall>x\<in>set (take k (takeWhile is_js_digit s)). is_js_digit x"
      by (meson in_set_takeD set_takeWhileD)
    with tk have dig: "list_all is_js_digit (take k s)"
      by (simp add: list_all_iff)
    from *(1) have len: "length (take k s) = k"
      using length_takeWhile_le [of is_js_digit s] by simp
    from Cons.IH [OF *(2)] obtain r where r: "m' \<in> pattern_lang its" "drop k s = m' @ r" by blast
    have "s = take k s @ m' @ r" using r(2) by (metis append_take_drop_id)
    moreover have "\<exists>d w. take k s @ m' = d @ w \<and> lo \<le> length d \<and> length d \<le> hi
        \<and> list_all is_js_digit d \<and> w \<in> pattern_lang its"
      using k dig len r(1) by (intro exI [of _ "take k s"] exI [of _ m']) simp
    then have "take k s @ m' \<in> pattern_lang (it # its)"
      using Digits by simp
    ultimately show ?thesis using *(3) by auto
  qed
qed

lemma match_here_complete:
  "w \<in> pattern_lang p \<Longrightarrow> match_here p (w @ r) \<noteq> None"
proof (induction p arbitrary: w)
  case Nil
  then show ?case by simp
next
  case (Cons it its)
  show ?case
  proof (cases it)
    case (Lit c)
    with Cons.prems obtain w' where "w = c # w'" "w' \<in> pattern_lang its" by auto
    with Cons.IH [of w'] Lit show ?thesis by auto
  next
    case (Digits lo hi)
    with Cons.prems obtain d w' where *: "w = d @ w'" "lo \<le> length d" "length d \<le> hi"
      "list_all is_js_digit d" "w' \<in> pattern_lang its" by auto
    let ?f = "\<lambda>k. if k \<le> length (takeWhile is_js_digit (w @ r))
                 then map_option (\<lambda>(m, gs). (take k (w @ r) @ m, take k (w @ r) # gs))
                        (match_here its (drop k (w @ r)))
                 else None"
    have "takeWhile is_js_digit (w @ r) = d @ takeWhile is_js_digit (w' @ r)"
      using *(1,4) by (simp add: list_all_iff)
    then have "length d \<le> length (takeWhile is_js_digit (w @ r))" by simp
    moreover have "match_here its (drop (length d) (w @ r)) \<noteq> None"
      using Cons.IH [OF *(5)] *(1) by simp
    ultimately have "?f (length d) \<noteq> None" by auto
    with *(2,3) have "first_some ?f (rev [lo..<Suc hi]) \<noteq> None"
      by (rule first_some_range_not_None)
    then show ?thesis unfolding Digits match_here_Digits .
  qed
qed

lemma js_match_occurs: "js_match p s \<noteq> None \<longleftrightarrow> occurs_in p s"
proof (induction s)
  case Nil
  show ?case
  proof
    assume "js_match p [] \<noteq> None"
    then obtain m gs where "match_here p [] = Some (m, gs)" by auto
    from match_here_sound [OF this] show "occurs_in p []"
      unfolding occurs_in_def by auto
  next
    assume "occurs_in p []"
    then have "[] \<in> pattern_lang p" unfolding occurs_in_def by auto
    from match_here_complete [OF this, of "[]"] show "js_match p [] \<noteq> None" by auto
  qed
next
  case (Cons c cs)
  show ?case
  proof
    assume a: "js_match p (c # cs) \<noteq> None"
    show "occurs_in p (c # cs)"
    proof (cases "match_here p (c # cs)")
      case None
      with a Cons have "occurs_in p cs" by simp
      then obtain pre w post where "cs = pre @ w @ post" "w \<in> pattern_lang p"
        unfolding occurs_in_def by blast
      then have "c # cs = (c # pre) @ w @ post \<and> w \<in> pattern_lang p" by simp
      then show ?thesis unfolding occurs_in_def by blast
    next
      case (Some a)
      then obtain m gs where "match_here p (c # cs) = Some (m, gs)" by (cases a) auto
      from match_here_sound [OF this] obtain r where "m \<in> pattern_lang p" "c # cs = [] @ m @ r"
        by auto
      then show ?thesis unfolding occurs_in_def by blast
    qed
  next
    assume "occurs_in p (c # cs)"
    then obtain pre w post where *: "c # cs = pre @ w @ post" "w \<in> pattern_lang p"
      unfolding occurs_in_def by blast
    show "js_match p (c # cs) \<noteq> None"
    proof (cases pre)
      case Nil
      with * match_here_complete [OF *(2), of post] have "match_here p (c # cs) \<noteq> None"
        by simp
      then show ?thesis by (auto split: option.splits)
    next
      case (Cons a pre')
      with * have "cs = pre' @ w @ post" by simp
      with *(2) have "occurs_in p cs" unfolding occurs_in_def by blast
      with Cons.IH show ?thesis by (auto split: option.splits)
    qed
  qed
qed

lemma n_groups_patterns:
  "n_groups pattern_year_month_day = 3" "n_groups pattern_iso = 3" "n_groups pattern_month_day = 2"
  by (simp_all add: pattern_year_month_day_def pattern_iso_def pattern_month_day_def)

lemma parseChineseDate_cases:
  "parseChineseDate cy s =
     (case js_match pattern_year_month_day s of
        Some m \<Rightarrow> Some (New_Date (parseInt (m ! 1)) (parseInt (m ! 2) - 1) (parseInt (m ! 3)))
      | None \<Rightarrow>
          (case js_match pattern_iso s of
             Some m \<Rightarrow> Some (New_Date (parseInt (m ! 1)) (parseInt (m ! 2) - 1) (parseInt (m ! 3)))
           | None \<Rightarrow>
               (case js_match pattern_month_day s of
                  Some m \<Rightarrow> Some (New_Date cy (parseInt (m ! 1) - 1) (parseInt (m ! 2)))
                | None \<Rightarrow> None)))"
  unfolding parseChineseDate_def patterns_def
  by (auto split: option.splits dest!: js_match_length simp: n_groups_patterns)

lemma month_day_example:
  "js_match pattern_year_month_day (js ''3'' @ [0x6708] @ js ''7'' @ [0x65E5]) = None"
  "js_match pattern_iso (js ''3'' @ [0x6708] @ js ''7'' @ [0x65E5]) = None"
  "parseChineseDate 2026 (js ''3'' @ [0x6708] @ js ''7'' @ [0x65E5]) = Some (New_Date 2026 2 7)"
  by code_simp+

section \<open>Facts about the page extractor\<close>

lemma extractSingle_result:
  "fst (extractSingleWeChatArticle env u w) =
     (case fst (axios_get env u (outside w)) of
        Inl e \<Rightarrow> \<lparr>url = u, title = msg_extract_failed, content = [], author = None,
                   publishDate = None, error = Some (message_of e)\<rparr>
      | Inr html \<Rightarrow>
          (case cheerio_load env html of
             Inl e \<Rightarrow> \<lparr>url = u, title = msg_extract_failed, content = [], author = None,
                        publishDate = None, error = Some (message_of e)\<rparr>
           | Inr d \<Rightarrow>
               if length (extractContent d) < 50
               then \<lparr>url = u, title = msg_extract_failed, content = [], author = None,
                     publishDate = None, error = Some msg_too_short\<rparr>
               else \<lparr>url = u,
                     title = (if extractTitle d \<noteq> [] then extractTitle d else msg_untitled),
                     content = cleanContent (extractContent d),
                     author = Some (extractAuthor d),
                     publishDate = extractPublishDate (getFullYear env (snd (axios_get env u (outside w)))) d,
                     error = None\<rparr>))"
  by (auto simp: extractSingleWeChatArticle_def http_get_def extract_page_def Let_def message_of_def
      split: prod.splits sum.splits)

lemma extractSingle_world:
  "snd (extractSingleWeChatArticle env u w) =
     w\<lparr>outside := snd (axios_get env u (outside w)), events := events w @ [Get u]\<rparr>"
  by (auto simp: extractSingleWeChatArticle_def http_get_def Let_def split: prod.splits sum.splits)

lemma extractSingle_url: "url (fst (extractSingleWeChatArticle env u w)) = u"
  by (simp add: extractSingle_result split: sum.splits)

lemma paragraphs_text_head:
  "paragraphs_text bs = [] \<or> \<not> is_js_space (hd (paragraphs_text bs))"
proof (cases "filter (\<lambda>t. t \<noteq> [] \<and> 10 < length t) (map trim bs)")
  case Nil
  then show ?thesis by (simp add: paragraphs_text_def)
next
  case (Cons t ts)
  then have "t \<in> set (filter (\<lambda>t. t \<noteq> [] \<and> 10 < length t) (map trim bs))" by simp
  then obtain b where "t = trim b" "t \<noteq> []" by auto
  then have "\<not> is_js_space (hd t)" using trim_head [of b] by simp
  with Cons \<open>t \<noteq> []\<close> show ?thesis by (simp add: paragraphs_text_def)
qed

lemma first_content_head:
  "first_content d sels = [] \<or> \<not> is_js_space (hd (first_content d sels))"
proof (induction sels)
  case Nil
  show ?case by simp
next
  case (Cons sel sels)
  show ?case
  proof (cases "first_element d sel")
    case None
    with Cons show ?thesis by simp
  next
    case (Some el)
    with paragraphs_text_head [of "blocks el"] trim_head [of "element_text el"]
    show ?thesis by (auto simp: Let_def)
  qed
qed

lemma extractContent_head:
  "extractContent d = [] \<or> \<not> is_js_space (hd (extractContent d))"
  unfolding extractContent_def by (rule first_content_head)

lemma trim_nonempty: "\<not> is_js_space c \<Longrightarrow> trim (c # xs) \<noteq> []"
proof -
  assume c: "\<not> is_js_space c"
  then have "c \<in> set (rev (c # xs))" "dropWhile is_js_space (c # xs) = c # xs" by simp_all
  with c have "dropWhile is_js_space (rev (dropWhile is_js_space (c # xs))) \<noteq> []"
    by (metis dropWhile_eq_Nil_conv)
  then show ?thesis by (simp add: trim_def)
qed

lemma cleanContent_nonempty:
  "s \<noteq> [] \<Longrightarrow> \<not> is_js_space (hd s) \<Longrightarrow> cleanContent s \<noteq> []"
proof -
  assume "s \<noteq> []" "\<not> is_js_space (hd s)"
  then obtain c cs where s: "s = c # cs" "\<not> is_js_space c" by (cases s) auto
  then have "trim (replace_ws_runs s) \<noteq> []" by (simp add: trim_nonempty)
  then show ?thesis by (simp add: cleanContent_eq maxContentLength_def)
qed

lemma cleanContent_extractContent:
  "50 \<le> length (extractContent d) \<Longrightarrow> cleanContent (extractContent d) \<noteq> []"
proof -
  assume "50 \<le> length (extractContent d)"
  then have "extractContent d \<noteq> []" by auto
  with extractContent_head [of d] show ?thesis by (simp add: cleanContent_nonempty)
qed

lemma extractSingle_invariant:
  "(content (fst (extractSingleWeChatArticle env u w)) \<noteq> [])
     = (error (fst (extractSingleWeChatArticle env u w)) = None)"
  by (auto simp: extractSingle_result cleanContent_extractContent not_less split: sum.splits)

section \<open>Facts about the batch fetcher\<close>

lemma extract_each_in_order:
  "extract_each env us w = (map Fulfilled (fst (extract_in_order env us w)), snd (extract_in_order env us w))"
  by (induction us arbitrary: w) (auto simp: Let_def split: prod.splits)

lemma length_extract_in_order: "length (fst (extract_in_order env us w)) = length us"
proof (induction us arbitrary: w)
  case Nil
  show ?case by simp
next
  case (Cons u us)
  from Cons [of "snd (extractSingleWeChatArticle env u w)"] show ?case
    by (auto simp: Let_def split: prod.splits)
qed

lemma map_url_extract_in_order: "map url (fst (extract_in_order env us w)) = us"
proof (induction us arbitrary: w)
  case Nil
  show ?case by simp
next
  case (Cons u us)
  have "url (fst (extractSingleWeChatArticle env u w)) = u" by (rule extractSingle_url)
  with Cons [of "snd (extractSingleWeChatArticle env u w)"] show ?case
    by (auto simp: Let_def split: prod.splits)
qed

lemma map2_settled_Fulfilled:
  "length rs = length us \<Longrightarrow> map2 settled_result us (map Fulfilled rs) = rs"
proof (induction rs arbitrary: us)
  case Nil
  then show ?case by simp
next
  case (Cons r rs)
  then show ?case by (cases us) (auto simp: settled_result_def)
qed

lemma chunks_Nil_iff: "chunks n xs = [] \<longleftrightarrow> n = 0 \<or> xs = []"
  by (subst chunks.simps) simp

lemma chunks_drop_step:
  "i < length vs \<Longrightarrow>
   chunks concurrencyLimit (drop i vs) =
     take concurrencyLimit (drop i vs) # chunks concurrencyLimit (drop (i + concurrencyLimit) vs)"
  by (subst chunks.simps) (simp add: concurrencyLimit_def add.commute)

lemma batch_loop_windows:
  "batch_loop env vs i res w =
     (res @ fst (run_windows env (chunks concurrencyLimit (drop i vs)) w),
      snd (run_windows env (chunks concurrencyLimit (drop i vs)) w))"
proof (induction env vs i res w rule: batch_loop.induct)
  case (1 env vs i res w)
  show ?case
  proof (cases "i < length vs")
    case False
    then have "chunks concurrencyLimit (drop i vs) = []" by (simp add: chunks_Nil_iff)
    with False show ?thesis by (subst batch_loop.simps) simp
  next
    case True
    let ?batch = "take concurrencyLimit (drop i vs)"
    let ?rs = "fst (extract_in_order env ?batch w)"
    let ?w1 = "snd (extract_in_order env ?batch w)"
    let ?w2 = "if i + concurrencyLimit < length vs then delay 3000 ?w1 else ?w1"
    have ee: "extract_each env ?batch w = (map Fulfilled ?rs, ?w1)"
      by (rule extract_each_in_order)
    have m: "map2 settled_result ?batch (map Fulfilled ?rs) = ?rs"
      by (rule map2_settled_Fulfilled) (simp only: length_extract_in_order)
    have IH: "batch_loop env vs (i + concurrencyLimit) (res @ ?rs) ?w2 =
        ((res @ ?rs) @ fst (run_windows env (chunks concurrencyLimit (drop (i + concurrencyLimit) vs)) ?w2),
         snd (run_windows env (chunks concurrencyLimit (drop (i + concurrencyLimit) vs)) ?w2))"
      using "1.IH" [OF True refl ee [symmetric] refl] m by (simp only:)
    have more: "chunks concurrencyLimit (drop (i + concurrencyLimit) vs) \<noteq> [] \<longleftrightarrow>
        i + concurrencyLimit < length vs"
      by (simp add: chunks_Nil_iff concurrencyLimit_def not_le)
    have "batch_loop env vs i res w = batch_loop env vs (i + concurrencyLimit) (res @ ?rs) ?w2"
      using True ee m by (subst batch_loop.simps) (simp add: Let_def)
    also note IH
    finally show ?thesis
      unfolding chunks_drop_step [OF True]
      by (simp add: Let_def more split: prod.splits)
  qed
qed

lemma extractBatch_windows:
  "extractBatchWeChatArticles env us w =
     (map invalid_result (filter (\<lambda>u. \<not> isWeChatArticleUrl env u) us)
        @ fst (run_windows env (chunks concurrencyLimit (filter (isWeChatArticleUrl env) us)) w),
      snd (run_windows env (chunks concurrencyLimit (filter (isWeChatArticleUrl env) us)) w))"
  by (simp add: extractBatchWeChatArticles_def Let_def batch_loop_windows)

lemma concat_chunks: "0 < n \<Longrightarrow> concat (chunks n xs) = xs"
proof (induction n xs rule: chunks.induct)
  case (1 n xs)
  then show ?case by (subst chunks.simps) auto
qed

lemma map_url_run_windows: "map url (fst (run_windows env wins w)) = concat wins"
proof (induction wins arbitrary: w)
  case Nil
  show ?case by simp
next
  case (Cons win wins)
  show ?case
    using Cons [of "if wins \<noteq> [] then delay 3000 (snd (extract_in_order env win w)) else snd (extract_in_order env win w)"]
      map_url_extract_in_order [of env win w]
    by (auto simp: Let_def split: prod.splits)
qed

lemma events_extract_in_order:
  "events (snd (extract_in_order env us w)) = events w @ map Get us"
proof (induction us arbitrary: w)
  case Nil
  show ?case by simp
next
  case (Cons u us)
  from Cons [of "snd (extractSingleWeChatArticle env u w)"] extractSingle_world [of env u w]
  show ?case by (auto simp: Let_def split: prod.splits)
qed

lemma events_run_windows:
  "events (snd (run_windows env wins w)) = events w @ window_events wins"
proof (induction wins arbitrary: w)
  case Nil
  show ?case by simp
next
  case (Cons win wins)
  let ?w1 = "snd (extract_in_order env win w)"
  let ?w2 = "if wins \<noteq> [] then delay 3000 ?w1 else ?w1"
  have "events ?w2 = events w @ map Get win @ (if wins \<noteq> [] then [Delay 3000] else [])"
    by (simp add: events_extract_in_order delay_def)
  with Cons [of ?w2] show ?case by (auto simp: Let_def split: prod.splits)
qed

lemma set_window_events:
  "set (window_events wins) \<subseteq> Get ` set (concat wins) \<union> {Delay 3000}"
  by (induction wins) auto

lemma chunks_sizes: "\<forall>win\<in>set (chunks n xs). win \<noteq> [] \<and> length win \<le> n"
proof (induction n xs rule: chunks.induct)
  case (1 n xs)
  show ?case
  proof (cases "n = 0 \<or> xs = []")
    case True
    then show ?thesis by (subst chunks.simps) simp
  next
    case False
    with 1 show ?thesis by (subst chunks.simps) auto
  qed
qed

lemma extract_in_order_all:
  "(\<And>u w. P (fst (extractSingleWeChatArticle env u w))) \<Longrightarrow>
   \<forall>r\<in>set (fst (extract_in_order env us w)). P r"
proof (induction us arbitrary: w)
  case Nil
  show ?case by simp
next
  case (Cons u us)
  from Cons.IH [OF Cons.prems, of "snd (extractSingleWeChatArticle env u w)"] Cons.prems [of u w]
  show ?case by (auto simp: Let_def split: prod.splits)
qed

lemma run_windows_all:
  "(\<And>u w. P (fst (extractSingleWeChatArticle env u w))) \<Longrightarrow>
   \<forall>r\<in>set (fst (run_windows env wins w)). P r"
proof (induction wins arbitrary: w)
  case Nil
  show ?case by simp
next
  case (Cons win wins)
  let ?w1 = "snd (extract_in_order env win w)"
  let ?w2 = "if wins \<noteq> [] then delay 3000 ?w1 else ?w1"
  from Cons.IH [OF Cons.prems, of ?w2] extract_in_order_all [of P env win w, OF Cons.prems]
  show ?case by (auto simp: Let_def split: prod.splits)
qed

lemma length_run_windows: "length (fst (run_windows env wins w)) = length (concat wins)"
  using map_url_run_windows [of env wins w] by (metis length_map)

lemma length_extractBatch: "length (fst (extractBatchWeChatArticles env us w)) = length us"
  by (simp add: extractBatch_windows length_run_windows concat_chunks concurrencyLimit_def
      sum_length_filter_compl add.commute)

lemma filter_eq_replicate: "filter (\<lambda>x. x = u) xs = replicate (count_list xs u) u"
  by (induction xs) auto

lemma invalid_url_entries:
  assumes "\<not> isWeChatArticleUrl env u"
  shows "filter (\<lambda>r. url r = u) (fst (extractBatchWeChatArticles env us w))
           = replicate (count_list us u) (invalid_result u)"
proof -
  let ?valid = "filter (isWeChatArticleUrl env) us"
  let ?rs = "fst (run_windows env (chunks concurrencyLimit ?valid) w)"
  have "map url ?rs = ?valid"
    by (simp add: map_url_run_windows concat_chunks concurrencyLimit_def)
  then have "url ` set ?rs = set ?valid" by (metis list.set_map)
  then have "u \<notin> url ` set ?rs" using assms by simp
  then have 1: "filter (\<lambda>r. url r = u) ?rs = []" by (auto simp: filter_empty_conv)
  have "filter (\<lambda>r. url r = u) (map invalid_result (filter (\<lambda>u. \<not> isWeChatArticleUrl env u) us))
      = map invalid_result (filter (\<lambda>x. x = u) (filter (\<lambda>u. \<not> isWeChatArticleUrl env u) us))"
    by (simp add: filter_map comp_def invalid_result_def)
  also have "filter (\<lambda>x. x = u) (filter (\<lambda>u. \<not> isWeChatArticleUrl env u) us) = filter (\<lambda>x. x = u) us"
    using assms by (auto intro: filter_cong)
  finally show ?thesis using 1 by (simp add: extractBatch_windows filter_eq_replicate)
qed

lemma invalid_url_not_fetched:
  assumes "\<not> isWeChatArticleUrl env u"
  shows "Get u \<notin> set (drop (length (events w)) (events (snd (extractBatchWeChatArticles env us w))))"
proof -
  let ?valid = "filter (isWeChatArticleUrl env) us"
  have "drop (length (events w)) (events (snd (extractBatchWeChatArticles env us w)))
      = window_events (chunks concurrencyLimit ?valid)"
    by (simp add: extractBatch_windows events_run_windows)
  moreover have "set (window_events (chunks concurrencyLimit ?valid)) \<subseteq> Get ` set ?valid \<union> {Delay 3000}"
    using set_window_events [of "chunks concurrencyLimit ?valid"]
    by (simp add: concat_chunks concurrencyLimit_def)
  ultimately show ?thesis using assms by auto
qed

section \<open>Facts about the example inputs\<close>

lemma length_js: "length (js s) = length s"
  by (simp add: js_def)

lemma demo_facts:
  "fst (axios_get demo_env demo_url out) = Inr (js ''page'')"
  "fst (axios_get demo_env brief_url out) = Inr (js ''brief'')"
  "fst (axios_get demo_env down_url out)
     = Inl (Error (js ''timeout of 20000ms exceeded''))"
  "cheerio_load demo_env (js ''page'') = Inr demo_page"
  "cheerio_load demo_env (js ''brief'') = Inr brief_page"
  by (simp_all add: demo_env_def demo_url_def brief_url_def down_url_def js_def)

lemma demo_page_content:
  "extractContent demo_page =
     js ''The first paragraph of the article.'' @ [LF, LF]
       @ js ''Another paragraph, long enough.'' @ [LF, LF]"
  by code_simp

lemma brief_page_content:
  "extractContent brief_page =
     js ''Paragraph 1'' @ [LF, LF] @ js ''Paragraph 2'' @ [LF, LF] @ js ''Paragraph 3''
       @ [LF, LF] @ js ''Paragraph 4'' @ [LF, LF]"
  by code_simp


lemma brief_clean:
  "cleanContent (extractContent brief_page)
     = js ''Paragraph 1 Paragraph 2 Paragraph 3 Paragraph 4''"
  by (simp add: brief_page_content cleanContent_eq trim_def js_def is_js_space_def SP_def LF_def
      maxContentLength_def)

lemma demo_valid:
  "isWeChatArticleUrl demo_env demo_url" "isWeChatArticleUrl demo_env brief_url"
  "isWeChatArticleUrl demo_env down_url" "\<not> isWeChatArticleUrl demo_env (js ''not-a-url'')"
  "\<not> isWeChatArticleUrl demo_env (js ''https://example.com/s/abc'')"
  by (simp_all add: isWeChatArticleUrl_def demo_env_def demo_url_def brief_url_def down_url_def
      js_def startsWith_def)

section \<open>Facts about the summarizer client\<close>

lemma split_on_nonempty: "split_on c s \<noteq> []"
  by (induction s) (auto split: list.splits)

lemma join_split_on: "join [c] (split_on c s) = s"
proof (induction s)
  case Nil
  show ?case by simp
next
  case (Cons x xs)
  obtain l ls where l: "split_on c xs = l # ls"
    using split_on_nonempty [of c xs] by (cases "split_on c xs") auto
  with Cons show ?case by (cases ls) auto
qed

lemma match_braces_None_iff:
  "match_braces response = None \<longleftrightarrow>
     \<not> (\<exists>pre mid post. response = pre @ 0x7B # mid @ 0x7D # post)"
proof -
  let ?r = "dropWhile (\<lambda>c. c \<noteq> 0x7B) response"
  have "(?r \<noteq> [] \<and> 0x7D \<in> set (tl ?r)) \<longleftrightarrow>
        (\<exists>pre mid post. response = pre @ 0x7B # mid @ 0x7D # post)"
  proof
    assume a: "?r \<noteq> [] \<and> 0x7D \<in> set (tl ?r)"
    then have "hd ?r = 0x7B" using hd_dropWhile [of "\<lambda>c. c \<noteq> 0x7B" response] by simp
    with a have r: "?r = 0x7B # tl ?r" by (cases ?r) auto
    from a obtain mid post where "tl ?r = mid @ 0x7D # post" by (auto dest: split_list)
    with r have "response = takeWhile (\<lambda>c. c \<noteq> 0x7B) response @ 0x7B # mid @ 0x7D # post"
      by (metis takeWhile_dropWhile_id)
    then show "\<exists>pre mid post. response = pre @ 0x7B # mid @ 0x7D # post" by blast
  next
    assume "\<exists>pre mid post. response = pre @ 0x7B # mid @ 0x7D # post"
    then obtain pre mid post where e: "response = pre @ 0x7B # mid @ 0x7D # post" by blast
    show "?r \<noteq> [] \<and> 0x7D \<in> set (tl ?r)"
    proof (cases "\<forall>x\<in>set pre. x \<noteq> 0x7B")
      case True
      then have "?r = 0x7B # mid @ 0x7D # post" unfolding e by (simp add: dropWhile_append)
      then show ?thesis by simp
    next
      case False
      then have "?r = dropWhile (\<lambda>c. c \<noteq> 0x7B) pre @ 0x7B # mid @ 0x7D # post"
        unfolding e by (auto simp: dropWhile_append)
      moreover from False have "dropWhile (\<lambda>c. c \<noteq> 0x7B) pre \<noteq> []" by simp
      ultimately show ?thesis by (cases "dropWhile (\<lambda>c. c \<noteq> 0x7B) pre") auto
    qed
  qed
  then show ?thesis by (auto simp: match_braces_def Let_def)
qed

lemma split_on_no_sep: "c \<notin> set x \<Longrightarrow> split_on c x = [x]"
  by (induction x) auto

lemma split_on_append: "c \<notin> set x \<Longrightarrow> split_on c (x @ c # rest) = x # split_on c rest"
  by (induction x) auto

lemma split_on_parts: "\<forall>l\<in>set (split_on c s). c \<notin> set l"
proof (induction s)
  case Nil
  show ?case by simp
next
  case (Cons x xs)
  obtain l ls where l: "split_on c xs = l # ls"
    using split_on_nonempty [of c xs] by (cases "split_on c xs") auto
  with Cons show ?case by auto
qed

lemma split_on_unique:
  "ls \<noteq> [] \<Longrightarrow> \<forall>l\<in>set ls. c \<notin> set l \<Longrightarrow> split_on c (join [c] ls) = ls"
proof (induction "[c]" ls rule: join.induct)
  case 1
  then show ?case by simp
next
  case (2 x)
  then show ?case by (simp add: split_on_no_sep)
next
  case (3 x y ys)
  then show ?case by (simp add: split_on_append)
qed

section \<open>Facts about the batch orchestrator\<close>

lemma process_articles_inv:
  "process_articles env name as (res, sc, fc, w) = (res', sc', fc', w') \<Longrightarrow>
     \<exists>new. res' = res @ new \<and> length new = length as
       \<and> sc' = sc + length (filter (\<lambda>e. entry_error e = None) new)
       \<and> fc' = fc + length (filter (\<lambda>e. entry_error e \<noteq> None) new)
       \<and> (\<forall>e\<in>set new. (entry_summary e \<noteq> None) = (entry_error e = None))
       \<and> map entry_url new = map url as"
proof (induction as arbitrary: res sc fc w)
  case Nil
  then show ?case by simp
next
  case (Cons a as)
  show ?case
  proof (cases "error a \<noteq> None \<and> error a \<noteq> Some []")
    case True
    let ?e = "\<lparr>entry_url = url a, entry_title = title a, entry_summary = None,
               entry_error = error a\<rparr>"
    from True Cons.prems
    have "process_articles env name as (res @ [?e], sc, fc + 1, w) = (res', sc', fc', w')"
      by simp
    from Cons.IH [OF this] obtain new where n: "res' = (res @ [?e]) @ new" "length new = length as"
      "sc' = sc + length (filter (\<lambda>e. entry_error e = None) new)"
      "fc' = fc + 1 + length (filter (\<lambda>e. entry_error e \<noteq> None) new)"
      "\<forall>e\<in>set new. (entry_summary e \<noteq> None) = (entry_error e = None)"
      "map entry_url new = map url as"
      by blast
    show ?thesis
      by (rule exI [of _ "?e # new"]) (use n True in auto)
  next
    case False
    obtain r w1 where s: "summarize_and_save env name a w = (r, w1)"
      by (cases "summarize_and_save env name a w") auto
    show ?thesis
    proof (cases r)
      case (Inr summaryResult)
      let ?e = "\<lparr>entry_url = url a, entry_title = title a,
                 entry_summary = Some summaryResult, entry_error = None\<rparr>"
      from False Cons.prems s Inr
      have "process_articles env name as (res @ [?e], sc + 1, fc, delay 1000 w1)
          = (res', sc', fc', w')"
        by (cases "error a") auto
      from Cons.IH [OF this] obtain new where n: "res' = (res @ [?e]) @ new"
        "length new = length as"
        "sc' = sc + 1 + length (filter (\<lambda>e. entry_error e = None) new)"
        "fc' = fc + length (filter (\<lambda>e. entry_error e \<noteq> None) new)"
        "\<forall>e\<in>set new. (entry_summary e \<noteq> None) = (entry_error e = None)"
        "map entry_url new = map url as"
        by blast
      show ?thesis
        by (rule exI [of _ "?e # new"]) (use n in auto)
    next
      case (Inl e)
      let ?e = "\<lparr>entry_url = url a, entry_title = title a, entry_summary = None,
                 entry_error = Some (msg_summarize_failed @ message_of e)\<rparr>"
      from False Cons.prems s Inl
      have "process_articles env name as (res @ [?e], sc, fc + 1, delay 1000 w1)
          = (res', sc', fc', w')"
        by (cases "error a") auto
      from Cons.IH [OF this] obtain new where n: "res' = (res @ [?e]) @ new"
        "length new = length as"
        "sc' = sc + length (filter (\<lambda>e. entry_error e = None) new)"
        "fc' = fc + 1 + length (filter (\<lambda>e. entry_error e \<noteq> None) new)"
        "\<forall>e\<in>set new. (entry_summary e \<noteq> None) = (entry_error e = None)"
        "map entry_url new = map url as"
        by blast
      show ?thesis
        by (rule exI [of _ "?e # new"]) (use n in auto)
    qed
  qed
qed

section \<open>The example inputs, run\<close>

lemma demo_page_fields:
  "extractTitle demo_page = js ''A title''"
  "extractAuthor demo_page = []"
  "extractPublishDate 2026 demo_page = Some (New_Date 2024 2 7)"
  by code_simp+

lemma demo_clean:
  "cleanContent (extractContent demo_page)
     = js ''The first paragraph of the article. Another paragraph, long enough.''"
  by (simp add: demo_page_content cleanContent_eq trim_def js_def is_js_space_def SP_def LF_def
      maxContentLength_def)

lemma demo_env_fields:
  "getFullYear demo_env out = 2026"
  "clock demo_env out = 1000"
  "axios_post demo_env t c out = (Inr (js ''no json''), out)"
  "JSON_stringify demo_env v = js ''[]''"
  "db_fault demo_env out = (None, out)"
  "new_id demo_env out = 1"
  by (simp_all add: demo_env_def)

lemma demo_extract:
  "extractSingleWeChatArticle demo_env demo_url w
     = (demo_article, w\<lparr>events := events w @ [Get demo_url]\<rparr>)"
proof -
  have "js ''A title'' \<noteq> []" by (simp add: js_def)
  moreover have "\<not> length (extractContent demo_page) < 50"
    by (simp add: demo_page_content length_js)
  ultimately have "fst (extractSingleWeChatArticle demo_env demo_url w) = demo_article"
    unfolding demo_article_def
    by (simp add: extractSingle_result demo_facts demo_page_fields demo_clean demo_env_fields)
  moreover have "snd (extractSingleWeChatArticle demo_env demo_url w)
      = w\<lparr>events := events w @ [Get demo_url]\<rparr>"
    by (simp add: extractSingle_world)
  ultimately show ?thesis by (metis prod.collapse)
qed

lemma demo_batch:
  "extractBatchWeChatArticles demo_env [demo_url] w
     = ([demo_article], w\<lparr>events := events w @ [Get demo_url]\<rparr>)"
  by (simp add: extractBatch_windows demo_valid chunks.simps concurrencyLimit_def demo_extract)

lemma demo_summary:
  "parseSummaryResponse demo_env (js ''no json'') =
     \<lparr>summaryContent = JStr (js ''no json...''), keyPoints = JArr [JStr (js ''no json'')],
      sentiment = JStr (js ''neutral''), category = JStr msg_uncategorized\<rparr>"
  by (simp add: parseSummaryResponse_def match_braces_def fallbackParsing_def js_def LF_def
      trim_def is_js_space_def)

lemma demo_batch_mixed:
  "extractBatchWeChatArticles demo_env [demo_url, js ''not-a-url''] w
     = ([invalid_result (js ''not-a-url''), demo_article],
        w\<lparr>events := events w @ [Get demo_url]\<rparr>)"
  by (simp add: extractBatch_windows demo_valid chunks.simps concurrencyLimit_def demo_extract)

lemma demo_report:
  "fst (batch_summarize demo_env
       \<lparr>urls = Some [demo_url, js ''not-a-url''], accountName = None\<rparr> demo_world)
     = Json \<lparr>success = True,
             results =
               [\<lparr>entry_url = js ''not-a-url'', entry_title = msg_invalid_title,
                 entry_summary = None, entry_error = Some msg_invalid_link\<rparr>,
                \<lparr>entry_url = demo_url, entry_title = js ''A title'',
                 entry_summary =
                   Some \<lparr>summaryContent = JStr (js ''no json...''),
                         keyPoints = JArr [JStr (js ''no json'')],
                         sentiment = JStr (js ''neutral''),
                         category = JStr msg_uncategorized\<rparr>,
                 entry_error = None\<rparr>],
             totalProcessed = 2, successCount = 1, failCount = 1\<rparr>"
proof -
  have "msg_invalid_link \<noteq> []" by (simp add: msg_invalid_link_def)
  then show ?thesis
    by (simp add: batch_summarize_def demo_batch_mixed demo_article_def invalid_result_def
      summarize_and_save_def summarizeArticle_def demo_summary account_upsert_def
      article_upsert_def summary_upsert_def upsert_def author_or_def date_or_now_def delay_def
      demo_env_fields demo_world_def Let_def)
qed

lemma demo_response_lines:
  "split_on LF demo_response =
     [js ''The article explains how the batch fetcher groups its requests in pairs of two.'',
      [], js ''   '',
      js ''Between two groups it waits three seconds so that the site is not overloaded.'',
      js ''Every article that was fetched is then summarised, one after the other, in order.'',
      js ''A fourth line that the fallback leaves out.'']"
  by (simp add: demo_response_def js_def LF_def)

lemma demo_response_no_json: "match_braces demo_response = None"
  by (simp add: match_braces_def demo_response_def js_def LF_def)

lemma demo_response_nonblank:
  "filter (\<lambda>line. trim line \<noteq> []) (split_on LF demo_response) =
     [js ''The article explains how the batch fetcher groups its requests in pairs of two.'',
      js ''Between two groups it waits three seconds so that the site is not overloaded.'',
      js ''Every article that was fetched is then summarised, one after the other, in order.'',
      js ''A fourth line that the fallback leaves out.'']"
  unfolding demo_response_lines
  by (simp add: js_def trim_def is_js_space_def)

lemma silent_env_fields:
  "axios_get silent_env u out = (Inl (Error []), out)"
  "axios_post silent_env t c out = (Inr (js ''no json''), out)"
  "JSON_stringify silent_env v = js ''[]''"
  "db_fault silent_env out = (None, out)"
  "new_id silent_env out = 1"
  "clock silent_env out = 1000"
  by (simp_all add: silent_env_def demo_env_fields)

lemma silent_valid: "isWeChatArticleUrl silent_env demo_url"
  using demo_valid(1) by (simp add: isWeChatArticleUrl_def silent_env_def)

lemma silent_extract:
  "extractSingleWeChatArticle silent_env demo_url w
     = (\<lparr>url = demo_url, title = msg_extract_failed, content = [], author = None,
         publishDate = None, error = Some []\<rparr>,
        w\<lparr>events := events w @ [Get demo_url]\<rparr>)"
proof -
  have "fst (extractSingleWeChatArticle silent_env demo_url w)
      = \<lparr>url = demo_url, title = msg_extract_failed, content = [], author = None,
         publishDate = None, error = Some []\<rparr>"
    by (simp add: extractSingle_result silent_env_fields message_of_def)
  moreover have "snd (extractSingleWeChatArticle silent_env demo_url w)
      = w\<lparr>events := events w @ [Get demo_url]\<rparr>"
    by (simp add: extractSingle_world silent_env_fields)
  ultimately show ?thesis by (metis prod.collapse)
qed

lemma silent_batch:
  "extractBatchWeChatArticles silent_env [demo_url] w
     = ([\<lparr>url = demo_url, title = msg_extract_failed, content = [], author = None,
          publishDate = None, error = Some []\<rparr>],
        w\<lparr>events := events w @ [Get demo_url]\<rparr>)"
  by (simp add: extractBatch_windows silent_valid chunks.simps concurrencyLimit_def silent_extract)

lemma silent_summary:
  "parseSummaryResponse silent_env (js ''no json'') =
     \<lparr>summaryContent = JStr (js ''no json...''), keyPoints = JArr [JStr (js ''no json'')],
      sentiment = JStr (js ''neutral''), category = JStr msg_uncategorized\<rparr>"
  by (simp add: parseSummaryResponse_def match_braces_def fallbackParsing_def js_def LF_def
      trim_def is_js_space_def)

section \<open>The claims\<close>

subsection \<open>C1: the counts of the batch report\<close>

text \<open>
  Claim C1: for a request whose \<open>urls\<close> is a list of 1 to 20 entries, the route answers
  with a report in which \<open>successCount + failCount = totalProcessed\<close> and \<open>totalProcessed\<close>
  is the number of URLs.  The batch fetcher returns one result for each URL, the report has
  one entry for each result, in the same order, every entry has either a summary or an
  error, and the two counts are the numbers of the entries of each kind.
\<close>

theorem batch_report_counts:
  assumes "urls req = Some us" and "us \<noteq> []" and "length us \<le> 20"
  shows "\<exists>resp w'. batch_summarize env req w = (Json resp, w')
     \<and> success resp
     \<and> successCount resp + failCount resp = totalProcessed resp
     \<and> totalProcessed resp = length us
     \<and> length (fst (extractBatchWeChatArticles env us w)) = length us
     \<and> map entry_url (results resp) = map url (fst (extractBatchWeChatArticles env us w))
     \<and> successCount resp = length (filter (\<lambda>e. entry_error e = None) (results resp))
     \<and> failCount resp = length (filter (\<lambda>e. entry_error e \<noteq> None) (results resp))
     \<and> (\<forall>e\<in>set (results resp). (entry_summary e \<noteq> None) = (entry_error e = None))"
proof -
  let ?name = "case accountName req of Some n \<Rightarrow> n | None \<Rightarrow> label_batch_import"
  obtain ex w1 where b: "extractBatchWeChatArticles env us w = (ex, w1)"
    by (cases "extractBatchWeChatArticles env us w") auto
  obtain res sc fc w2 where p: "process_articles env ?name ex ([], 0, 0, w1) = (res, sc, fc, w2)"
    by (cases "process_articles env ?name ex ([], 0, 0, w1)") auto
  from process_articles_inv [OF p] obtain new where n: "res = new" "length new = length ex"
    "sc = length (filter (\<lambda>e. entry_error e = None) new)"
    "fc = length (filter (\<lambda>e. entry_error e \<noteq> None) new)"
    "\<forall>e\<in>set new. (entry_summary e \<noteq> None) = (entry_error e = None)"
    "map entry_url new = map url ex"
    by auto
  have l: "length ex = length us" using length_extractBatch [of env us w] b by simp
  have "sc + fc = length new"
    unfolding n(3,4) using sum_length_filter_compl [of "\<lambda>e. entry_error e = None" new] by simp
  with n l have c: "sc + fc = length us" by simp
  have "batch_summarize env req w =
      (Json \<lparr>success = True, results = res, totalProcessed = length us, successCount = sc,
             failCount = fc\<rparr>, w2)"
    using assms b p by (simp add: batch_summarize_def)
  then show ?thesis using c n l b by simp
qed

theorem batch_report_counts_witness:
  "\<exists>resp w'. batch_summarize demo_env
       \<lparr>urls = Some [demo_url, js ''not-a-url''], accountName = None\<rparr> demo_world = (Json resp, w')
     \<and> successCount resp = 1 \<and> failCount resp = 1 \<and> totalProcessed resp = 2
     \<and> successCount resp + failCount resp = totalProcessed resp
     \<and> map entry_url (results resp) = [js ''not-a-url'', demo_url]"
proof -
  let ?req = "\<lparr>urls = Some [demo_url, js ''not-a-url''], accountName = None\<rparr>"
  have "urls ?req = Some [demo_url, js ''not-a-url'']" "[demo_url, js ''not-a-url''] \<noteq> []"
    "length [demo_url, js ''not-a-url''] \<le> 20"
    by simp_all
  from batch_report_counts [OF this, of demo_env demo_world]
  obtain resp w' where r: "batch_summarize demo_env ?req demo_world = (Json resp, w')"
    "successCount resp + failCount resp = totalProcessed resp"
    "totalProcessed resp = length [demo_url, js ''not-a-url'']"
    by blast
  from r(1) demo_report have "successCount resp = 1" "failCount resp = 1"
    "map entry_url (results resp) = [js ''not-a-url'', demo_url]"
    by simp_all
  with r show ?thesis by auto
qed

subsection \<open>C2: content or error, never both, never neither\<close>

text \<open>
  Claim C2 says that every extraction result has either a content that is not empty or an
  error, never neither.  The program reads the field \<open>error\<close> by its truth value, and the
  empty string is not an error to it.  When the request throws an \<open>Error\<close> whose message is
  empty, \<open>extractSingleWeChatArticle\<close> returns an empty content and the empty string as
  \<open>error\<close>: neither of the two.  The handler of a rejected promise in the batch fetcher
  puts "unknown error" in the place of an empty message; the \<open>catch\<close> of
  \<open>extractSingleWeChatArticle\<close> does not, and the route summarizes the failed extraction
  and counts it as a success.
\<close>

theorem empty_error_message_is_neither:
  "content (fst (extractSingleWeChatArticle silent_env demo_url demo_world)) = []
   \<and> error (fst (extractSingleWeChatArticle silent_env demo_url demo_world)) = Some []
   \<and> error (settled_result demo_url (Rejected (Error []))) = Some msg_unknown_error
   \<and> fst (batch_summarize silent_env \<lparr>urls = Some [demo_url], accountName = None\<rparr> demo_world)
       = Json \<lparr>success = True,
               results =
                 [\<lparr>entry_url = demo_url, entry_title = msg_extract_failed,
                   entry_summary =
                     Some \<lparr>summaryContent = JStr (js ''no json...''),
                           keyPoints = JArr [JStr (js ''no json'')],
                           sentiment = JStr (js ''neutral''),
                           category = JStr msg_uncategorized\<rparr>,
                   entry_error = None\<rparr>],
               totalProcessed = 1, successCount = 1, failCount = 0\<rparr>"
  by (simp add: silent_extract settled_result_def batch_summarize_def silent_batch
      summarize_and_save_def summarizeArticle_def silent_summary account_upsert_def
      article_upsert_def summary_upsert_def upsert_def author_or_def date_or_now_def delay_def
      silent_env_fields demo_world_def Let_def)

subsection \<open>C3: what a failed extraction returns\<close>




subsection \<open>C4: what the content cleaner does to paragraph breaks\<close>

text \<open>
  Claim C4 says that \<open>cleanContent\<close> keeps a paragraph break as exactly one blank line.
  The first replacement has already turned every line feed into a space when the second
  one, which looks for line feeds, runs.  For the page of four paragraphs the extractor
  builds the text with two line feeds behind each paragraph, and the cleaner returns the
  four paragraphs on one line, with single spaces between them and no line feed left.
\<close>

theorem cleanContent_loses_paragraph_breaks:
  "extractContent brief_page =
     js ''Paragraph 1'' @ [LF, LF] @ js ''Paragraph 2'' @ [LF, LF] @ js ''Paragraph 3''
       @ [LF, LF] @ js ''Paragraph 4'' @ [LF, LF]
   \<and> cleanContent (extractContent brief_page)
       = js ''Paragraph 1 Paragraph 2 Paragraph 3 Paragraph 4''
   \<and> LF \<notin> set (cleanContent (extractContent brief_page))"
  using brief_page_content brief_clean cleanContent_no_LF [of "extractContent brief_page"]
  by (simp only: simp_thms)

subsection \<open>C5: the content cleaner applied twice\<close>

text \<open>
  Claim C5 as stated, that \<open>cleanContent (cleanContent s) = cleanContent s\<close> for every \<open>s\<close>,
  fails: the cleaner trims before it truncates, so the cut at 15000 characters can leave a
  space at the end, which a second run trims away.  The text of 14999 letters \<open>a\<close>, a space
  and \<open>b\<close> is cleaned to the letters and the space, and cleaned again to the letters.
\<close>

theorem cleanContent_not_idempotent:
  "cleanContent (cleanContent (replicate 14999 0x61 @ [0x20, 0x62]))
     \<noteq> cleanContent (replicate 14999 0x61 @ [0x20, 0x62])"
proof -
  have "is_js_space (last (cleanContent (replicate 14999 0x61 @ [0x20, 0x62])))"
    by (simp add: cleanContent_long is_js_space_def)
  moreover have "cleanContent (replicate 14999 0x61 @ [0x20, 0x62]) \<noteq> []"
    by (simp add: cleanContent_long)
  ultimately show ?thesis using cleanContent_idem_iff by blast
qed

text \<open>
  Claim C5, amended: cleaning twice gives the same text as cleaning once exactly when the
  cleaned text is empty or does not end with white space, and that is so for every text of
  at most 15000 characters.
\<close>

theorem cleanContent_idempotent_without_trailing_space:
  "(length s \<le> maxContentLength \<longrightarrow> cleanContent (cleanContent s) = cleanContent s) \<and>
   (cleanContent (cleanContent s) = cleanContent s \<longleftrightarrow>
      cleanContent s = [] \<or> \<not> is_js_space (last (cleanContent s)))"
proof -
  have "length (trim (replace_ws_runs s)) \<le> length s"
    using length_trim [of "replace_ws_runs s"] length_replace_ws_runs [of s] by linarith
  then have "length s \<le> maxContentLength \<Longrightarrow> cleanContent (cleanContent s) = cleanContent s"
    using cleanContent_untruncated_last [of s] cleanContent_idem_iff [of s] by simp
  then show ?thesis using cleanContent_idem_iff [of s] by blast
qed

theorem cleanContent_idempotent_witness:
  "length [0x20, 0x61, 0x0A, 0x0A, 0x62 :: jschar] \<le> maxContentLength \<and>
   cleanContent [0x20, 0x61, 0x0A, 0x0A, 0x62] = [0x61, 0x20, 0x62] \<and>
   cleanContent (cleanContent [0x20, 0x61, 0x0A, 0x0A, 0x62]) = cleanContent [0x20, 0x61, 0x0A, 0x0A, 0x62]"
proof -
  have 1: "length [0x20, 0x61, 0x0A, 0x0A, 0x62 :: jschar] \<le> maxContentLength"
    by (simp add: maxContentLength_def)
  have 2: "cleanContent [0x20, 0x61, 0x0A, 0x0A, 0x62] = [0x61, 0x20, 0x62]"
    by (simp add: cleanContent_def trim_def is_js_space_def SP_def LF_def maxContentLength_def)
  from 1 2 cleanContent_idempotent_without_trailing_space [of "[0x20, 0x61, 0x0A, 0x0A, 0x62]"]
  show ?thesis by blast
qed

subsection \<open>C6: a URL that is not an article link\<close>

text \<open>
  Claim C6: for a URL that does not parse, or whose host is not \<open>mp.weixin.qq.com\<close>, or
  whose path does not start with \<open>/s/\<close>, the entries of the batch result for that URL are
  the fixed failure entry, once for each time the URL stands in the input, with the reason
  "not a valid WeChat article link" and an empty content, and the batch sends no request to
  that URL.
\<close>

theorem invalid_url_fails_without_fetch:
  assumes "URL_parse env u = None
      \<or> (\<exists>p. URL_parse env u = Some p
            \<and> (hostname p \<noteq> js ''mp.weixin.qq.com'' \<or> \<not> startsWith (pathname p) (js ''/s/'')))"
  shows "filter (\<lambda>r. url r = u) (fst (extractBatchWeChatArticles env us w))
           = replicate (count_list us u) (invalid_result u)
         \<and> (u \<in> set us \<longrightarrow> invalid_result u \<in> set (fst (extractBatchWeChatArticles env us w)))
         \<and> error (invalid_result u) = Some msg_invalid_link
         \<and> content (invalid_result u) = []
         \<and> Get u \<notin> set (drop (length (events w))
                          (events (snd (extractBatchWeChatArticles env us w))))"
proof -
  from assms have inv: "\<not> isWeChatArticleUrl env u"
    by (auto simp: isWeChatArticleUrl_def)
  have 1: "filter (\<lambda>r. url r = u) (fst (extractBatchWeChatArticles env us w))
           = replicate (count_list us u) (invalid_result u)"
    by (rule invalid_url_entries [OF inv])
  have 2: "invalid_result u \<in> set (fst (extractBatchWeChatArticles env us w))" if "u \<in> set us"
  proof -
    from that have "count_list us u \<noteq> 0" by (simp add: count_list_0_iff)
    then have "0 < count_list us u" by simp
    then have "invalid_result u \<in> set (replicate (count_list us u) (invalid_result u))" by simp
    then show ?thesis unfolding 1 [symmetric] by simp
  qed
  from 1 2 invalid_url_not_fetched [OF inv, of w us] show ?thesis
    by (simp add: invalid_result_def)
qed

theorem invalid_url_fails_without_fetch_witness:
  "URL_parse demo_env (js ''not-a-url'') = None
   \<and> invalid_result (js ''not-a-url'')
        \<in> set (fst (extractBatchWeChatArticles demo_env [demo_url, js ''not-a-url''] demo_world))
   \<and> Get (js ''not-a-url'')
        \<notin> set (events (snd (extractBatchWeChatArticles demo_env [demo_url, js ''not-a-url'']
                                demo_world)))"
proof -
  have p: "URL_parse demo_env (js ''not-a-url'') = None"
    by (simp add: demo_env_def demo_url_def brief_url_def down_url_def js_def)
  have e: "events demo_world = []" by (simp add: demo_world_def)
  from invalid_url_fails_without_fetch [of demo_env "js ''not-a-url''" "[demo_url, js ''not-a-url'']" demo_world] p e
  show ?thesis by simp
qed

subsection \<open>C7: the fallback of the response parser\<close>

text \<open>
  Claim C7: when the response of the language model holds no opening brace with a closing
  brace behind it, or when \<open>JSON.parse\<close> throws on the text from the first opening brace to
  the last closing brace, \<open>parseSummaryResponse\<close> returns the result of the fallback: the
  summary is the first three non-blank lines joined with spaces, cut at 200 characters and
  followed by three dots, the key points are those lines, the sentiment is \<open>neutral\<close> and
  the category is "uncategorized".  The lines are the lines of the response: texts without
  a line feed that give the response back when they are joined with line feeds, and the
  only list of such texts.
\<close>

theorem parseSummaryResponse_fallback:
  assumes "(\<not> (\<exists>pre mid post. response = pre @ 0x7B # mid @ 0x7D # post))
      \<or> (\<exists>matched e. match_braces response = Some matched \<and> JSON_parse env matched = Inl e)"
  shows "parseSummaryResponse env response =
     \<lparr>summaryContent =
        JStr (take 200 (join [SP]
                (take 3 (filter (\<lambda>line. trim line \<noteq> []) (split_on LF response))))
              @ js ''...''),
      keyPoints = JArr (map JStr (take 3 (filter (\<lambda>line. trim line \<noteq> []) (split_on LF response)))),
      sentiment = JStr (js ''neutral''),
      category = JStr msg_uncategorized\<rparr>
     \<and> split_on LF response \<noteq> []
     \<and> join [LF] (split_on LF response) = response
     \<and> (\<forall>line\<in>set (split_on LF response). LF \<notin> set line)
     \<and> (\<forall>lines. lines \<noteq> [] \<and> (\<forall>line\<in>set lines. LF \<notin> set line)
            \<and> join [LF] lines = response \<longrightarrow> lines = split_on LF response)"
proof -
  from assms have "parseSummaryResponse env response = fallbackParsing response"
    unfolding match_braces_None_iff [symmetric]
    by (auto simp: parseSummaryResponse_def parse_matched_def)
  moreover have "lines = split_on LF response"
    if "lines \<noteq> []" "\<forall>line\<in>set lines. LF \<notin> set line" "join [LF] lines = response" for lines
    using split_on_unique [OF that(1,2)] that(3) by simp
  ultimately show ?thesis
    using split_on_parts [of LF response]
    by (simp add: fallbackParsing_def Let_def join_split_on split_on_nonempty)
qed

theorem parseSummaryResponse_fallback_witness:
  "\<not> (\<exists>pre mid post. demo_response = pre @ 0x7B # mid @ 0x7D # post)
   \<and> parseSummaryResponse demo_env demo_response =
       \<lparr>summaryContent = JStr (js ''The article explains how the batch fetcher groups its requests in pairs of two. Between two groups it waits three seconds so that the site is not overloaded. Every article that was fetched is then sum...''),
        keyPoints = JArr
          [JStr (js ''The article explains how the batch fetcher groups its requests in pairs of two.''),
           JStr (js ''Between two groups it waits three seconds so that the site is not overloaded.''),
           JStr (js ''Every article that was fetched is then summarised, one after the other, in order.'')],
        sentiment = JStr (js ''neutral''), category = JStr msg_uncategorized\<rparr>
   \<and> match_braces (js ''{oops}'') = Some (js ''{oops}'')
   \<and> JSON_parse demo_env (js ''{oops}'') = Inl (Error (js ''Unexpected token''))
   \<and> parseSummaryResponse demo_env (js ''{oops}'') =
       \<lparr>summaryContent = JStr (js ''{oops}...''), keyPoints = JArr [JStr (js ''{oops}'')],
        sentiment = JStr (js ''neutral''), category = JStr msg_uncategorized\<rparr>"
proof -
  have n: "\<not> (\<exists>pre mid post. demo_response = pre @ 0x7B # mid @ 0x7D # post)"
    using demo_response_no_json unfolding match_braces_None_iff .
  have m: "match_braces (js ''{oops}'') = Some (js ''{oops}'')"
    by (simp add: match_braces_def js_def)
  have p: "JSON_parse demo_env (js ''{oops}'') = Inl (Error (js ''Unexpected token''))"
    by (simp add: demo_env_def)
  have l: "filter (\<lambda>line. trim line \<noteq> []) (split_on LF (js ''{oops}'')) = [js ''{oops}'']"
    by (simp add: js_def LF_def trim_def is_js_space_def)
  from parseSummaryResponse_fallback [of demo_response demo_env] n
  have a: "parseSummaryResponse demo_env demo_response =
     \<lparr>summaryContent =
        JStr (take 200 (join [SP]
                (take 3 (filter (\<lambda>line. trim line \<noteq> []) (split_on LF demo_response))))
              @ js ''...''),
      keyPoints = JArr (map JStr (take 3 (filter (\<lambda>line. trim line \<noteq> []) (split_on LF demo_response)))),
      sentiment = JStr (js ''neutral''),
      category = JStr msg_uncategorized\<rparr>"
    by blast
  from parseSummaryResponse_fallback [of "js ''{oops}''" demo_env] m p
  have b: "parseSummaryResponse demo_env (js ''{oops}'') =
     \<lparr>summaryContent =
        JStr (take 200 (join [SP]
                (take 3 (filter (\<lambda>line. trim line \<noteq> []) (split_on LF (js ''{oops}'')))))
              @ js ''...''),
      keyPoints = JArr (map JStr (take 3 (filter (\<lambda>line. trim line \<noteq> []) (split_on LF (js ''{oops}''))))),
      sentiment = JStr (js ''neutral''),
      category = JStr msg_uncategorized\<rparr>"
    by blast
  have a': "parseSummaryResponse demo_env demo_response =
       \<lparr>summaryContent = JStr (js ''The article explains how the batch fetcher groups its requests in pairs of two. Between two groups it waits three seconds so that the site is not overloaded. Every article that was fetched is then sum...''),
        keyPoints = JArr
          [JStr (js ''The article explains how the batch fetcher groups its requests in pairs of two.''),
           JStr (js ''Between two groups it waits three seconds so that the site is not overloaded.''),
           JStr (js ''Every article that was fetched is then summarised, one after the other, in order.'')],
        sentiment = JStr (js ''neutral''), category = JStr msg_uncategorized\<rparr>"
    using a unfolding demo_response_nonblank by (simp add: js_def SP_def)
  have b': "parseSummaryResponse demo_env (js ''{oops}'') =
       \<lparr>summaryContent = JStr (js ''{oops}...''), keyPoints = JArr [JStr (js ''{oops}'')],
        sentiment = JStr (js ''neutral''), category = JStr msg_uncategorized\<rparr>"
    using b unfolding l by (simp add: js_def)
  from n a' m p b' show ?thesis by blast
qed

subsection \<open>C8: the three date patterns\<close>

text \<open>
  Claim C8: \<open>parseChineseDate\<close> tries the pattern year-month-day with the Chinese
  characters, then the pattern with dashes, then the pattern month-day, and returns the
  date made from the match array of the first pattern that matches, with the current year
  where the pattern has none; it returns nothing when no pattern matches.  A pattern
  matches exactly when the date string contains a text of its shape.
\<close>

theorem parseChineseDate_first_matching_pattern:
  "parseChineseDate cy s =
     (case js_match pattern_year_month_day s of
        Some m \<Rightarrow> Some (New_Date (parseInt (m ! 1)) (parseInt (m ! 2) - 1) (parseInt (m ! 3)))
      | None \<Rightarrow>
          (case js_match pattern_iso s of
             Some m \<Rightarrow> Some (New_Date (parseInt (m ! 1)) (parseInt (m ! 2) - 1) (parseInt (m ! 3)))
           | None \<Rightarrow>
               (case js_match pattern_month_day s of
                  Some m \<Rightarrow> Some (New_Date cy (parseInt (m ! 1) - 1) (parseInt (m ! 2)))
                | None \<Rightarrow> None)))
   \<and> (js_match pattern_year_month_day s = None \<longleftrightarrow> \<not> occurs_in pattern_year_month_day s)
   \<and> (js_match pattern_iso s = None \<longleftrightarrow> \<not> occurs_in pattern_iso s)
   \<and> (js_match pattern_month_day s = None \<longleftrightarrow> \<not> occurs_in pattern_month_day s)
   \<and> (parseChineseDate cy s = None \<longleftrightarrow>
        \<not> occurs_in pattern_year_month_day s \<and> \<not> occurs_in pattern_iso s
        \<and> \<not> occurs_in pattern_month_day s)"
proof -
  have "parseChineseDate cy s = None \<longleftrightarrow>
        js_match pattern_year_month_day s = None \<and> js_match pattern_iso s = None
        \<and> js_match pattern_month_day s = None"
    unfolding parseChineseDate_cases by (auto split: option.splits)
  then show ?thesis
    using js_match_occurs [of pattern_year_month_day s] js_match_occurs [of pattern_iso s]
      js_match_occurs [of pattern_month_day s] parseChineseDate_cases [of cy s]
    by blast
qed

theorem parseChineseDate_month_day_witness:
  "parseChineseDate 2026 (js ''3'' @ [0x6708] @ js ''7'' @ [0x65E5]) = Some (New_Date 2026 2 7)
   \<and> \<not> occurs_in pattern_year_month_day (js ''3'' @ [0x6708] @ js ''7'' @ [0x65E5])
   \<and> \<not> occurs_in pattern_iso (js ''3'' @ [0x6708] @ js ''7'' @ [0x65E5])
   \<and> occurs_in pattern_month_day (js ''3'' @ [0x6708] @ js ''7'' @ [0x65E5])"
proof -
  let ?s = "js ''3'' @ [0x6708] @ js ''7'' @ [0x65E5]"
  note t = parseChineseDate_first_matching_pattern [of 2026 ?s, THEN conjunct2]
  from t month_day_example(1) have 1: "\<not> occurs_in pattern_year_month_day ?s" by blast
  from t month_day_example(2) have 2: "\<not> occurs_in pattern_iso ?s" by blast
  from month_day_example(3) have "parseChineseDate 2026 ?s \<noteq> None" by simp
  with t 1 2 have 3: "occurs_in pattern_month_day ?s" by blast
  from 1 2 3 month_day_example(3) show ?thesis by blast
qed

subsection \<open>C9: the order of the batch result\<close>

text \<open>
  Claim C9: the list \<open>extractBatchWeChatArticles\<close> returns is the failure entries of the
  invalid URLs, in input order, followed by the results of the valid URLs, window by window:
  the windows cut the valid URLs, in input order, into groups of at most two, the URLs of
  the results follow that order, and the requests are sent in it, with a pause of 3000 ms
  between two windows.
\<close>

theorem batch_output_order:
  "fst (extractBatchWeChatArticles env us w)
     = map invalid_result (filter (\<lambda>u. \<not> isWeChatArticleUrl env u) us)
       @ fst (run_windows env (chunks concurrencyLimit (filter (isWeChatArticleUrl env) us)) w)
   \<and> map url (fst (run_windows env (chunks concurrencyLimit (filter (isWeChatArticleUrl env) us)) w))
       = filter (isWeChatArticleUrl env) us
   \<and> concat (chunks concurrencyLimit (filter (isWeChatArticleUrl env) us))
       = filter (isWeChatArticleUrl env) us
   \<and> (\<forall>window\<in>set (chunks concurrencyLimit (filter (isWeChatArticleUrl env) us)).
         window \<noteq> [] \<and> length window \<le> 2)
   \<and> events (snd (extractBatchWeChatArticles env us w))
       = events w @ window_events (chunks concurrencyLimit (filter (isWeChatArticleUrl env) us))"
proof -
  let ?wins = "chunks concurrencyLimit (filter (isWeChatArticleUrl env) us)"
  have c: "concat ?wins = filter (isWeChatArticleUrl env) us"
    by (simp add: concat_chunks concurrencyLimit_def)
  have s: "\<forall>window\<in>set ?wins. window \<noteq> [] \<and> length window \<le> 2"
    using chunks_sizes [of concurrencyLimit "filter (isWeChatArticleUrl env) us"]
    by (simp add: concurrencyLimit_def)
  show ?thesis
    using c s by (simp add: extractBatch_windows map_url_run_windows events_run_windows)
qed

theorem batch_output_order_witness:
  "map url (fst (extractBatchWeChatArticles demo_env
       [demo_url, js ''not-a-url'', brief_url, down_url] demo_world))
     = [js ''not-a-url'', demo_url, brief_url, down_url]
   \<and> chunks concurrencyLimit (filter (isWeChatArticleUrl demo_env)
         [demo_url, js ''not-a-url'', brief_url, down_url])
     = [[demo_url, brief_url], [down_url]]
   \<and> events (snd (extractBatchWeChatArticles demo_env
       [demo_url, js ''not-a-url'', brief_url, down_url] demo_world))
     = [Get demo_url, Get brief_url, Delay 3000, Get down_url]"
proof -
  let ?us = "[demo_url, js ''not-a-url'', brief_url, down_url]"
  have v: "filter (isWeChatArticleUrl demo_env) ?us = [demo_url, brief_url, down_url]"
    "filter (\<lambda>u. \<not> isWeChatArticleUrl demo_env u) ?us = [js ''not-a-url'']"
    by (simp_all add: demo_valid)
  have w: "chunks concurrencyLimit [demo_url, brief_url, down_url]
      = [[demo_url, brief_url], [down_url]]"
    by (simp add: chunks.simps concurrencyLimit_def)
  have e: "events demo_world = []" by (simp add: demo_world_def)
  note t = batch_output_order [of demo_env ?us demo_world]
  from t have a: "map url (fst (extractBatchWeChatArticles demo_env ?us demo_world))
      = map url (map invalid_result (filter (\<lambda>u. \<not> isWeChatArticleUrl demo_env u) ?us))
        @ filter (isWeChatArticleUrl demo_env) ?us"
    by (metis map_append)
  from t have b: "events (snd (extractBatchWeChatArticles demo_env ?us demo_world))
      = events demo_world
        @ window_events (chunks concurrencyLimit (filter (isWeChatArticleUrl demo_env) ?us))"
    by blast
  from a b show ?thesis unfolding v w e by (simp add: invalid_result_def)
qed

subsection \<open>C10: the defaults of a stored article\<close>

text \<open>
  Claim C10 as stated says that the stored row always has an author that is not empty.
  The account label of the request replaces an empty author, and the label itself may be
  the empty string: the default label stands in only when the request has no label at all.
  For the first example page, which names no author, and the label \<open>""\<close>, the route stores
  an article with an empty author.
\<close>

theorem empty_account_label_counterexample:
  "map_option article_author
     (article (snd (batch_summarize demo_env
                      \<lparr>urls = Some [demo_url], accountName = Some []\<rparr> demo_world)) demo_url)
     = Some []"
  by (simp add: batch_summarize_def demo_batch demo_article_def summarize_and_save_def
      summarizeArticle_def demo_summary account_upsert_def article_upsert_def summary_upsert_def
      upsert_def author_or_def date_or_now_def delay_def demo_env_fields demo_world_def
      Let_def)

text \<open>
  Claim C10, amended: when \<open>prisma.article.upsert\<close> returns, the row stored under the URL
  is the row it returns, whether it was created or updated; its publish date is the
  extracted date, or the reading of the clock when none was extracted; its author is the
  extracted author when that is not empty and the account label otherwise, hence not empty
  whenever the account label is not empty.
\<close>

theorem article_upsert_defaults:
  assumes "article_upsert env name a account w = (Inr row, w')"
  shows "article w' (url a) = Some row
     \<and> article_publishDate row
         = (case publishDate a of Some date \<Rightarrow> date | None \<Rightarrow> Now (clock env (outside w)))
     \<and> article_author row
         = (case author a of Some n \<Rightarrow> if n \<noteq> [] then n else name | None \<Rightarrow> name)
     \<and> (name \<noteq> [] \<longrightarrow> article_author row \<noteq> [])"
  using assms
  by (auto simp: article_upsert_def upsert_def author_or_def date_or_now_def Let_def
      split: prod.splits option.splits sum.splits if_splits)

theorem article_upsert_defaults_witness:
  "article_upsert demo_env label_batch_import (demo_article\<lparr>publishDate := None\<rparr>)
       demo_account demo_world
     = (Inr \<lparr>article_id = 1, article_title = js ''A title'',
             article_content =
               js ''The first paragraph of the article. Another paragraph, long enough.'',
             article_url = demo_url, article_publishDate = Now 1000,
             article_author = label_batch_import, article_accountId = 1\<rparr>,
        demo_world\<lparr>article := [demo_url \<mapsto>
          \<lparr>article_id = 1, article_title = js ''A title'',
           article_content =
             js ''The first paragraph of the article. Another paragraph, long enough.'',
           article_url = demo_url, article_publishDate = Now 1000,
           article_author = label_batch_import, article_accountId = 1\<rparr>]\<rparr>)
   \<and> article_upsert demo_env label_batch_import (demo_article\<lparr>publishDate := None\<rparr>)
       demo_account (demo_world\<lparr>article := [demo_url \<mapsto> stored_article]\<rparr>)
     = (Inr \<lparr>article_id = 7, article_title = js ''A title'',
             article_content =
               js ''The first paragraph of the article. Another paragraph, long enough.'',
             article_url = demo_url, article_publishDate = Now 1000,
             article_author = label_batch_import, article_accountId = 1\<rparr>,
        demo_world\<lparr>article := [demo_url \<mapsto>
          \<lparr>article_id = 7, article_title = js ''A title'',
           article_content =
             js ''The first paragraph of the article. Another paragraph, long enough.'',
           article_url = demo_url, article_publishDate = Now 1000,
           article_author = label_batch_import, article_accountId = 1\<rparr>]\<rparr>)
   \<and> label_batch_import \<noteq> []"
proof -
  let ?a = "demo_article\<lparr>publishDate := None\<rparr>"
  let ?created = "\<lparr>article_id = 1, article_title = js ''A title'',
           article_content =
             js ''The first paragraph of the article. Another paragraph, long enough.'',
           article_url = demo_url, article_publishDate = Now 1000,
           article_author = label_batch_import, article_accountId = 1\<rparr>"
  let ?updated = "?created\<lparr>article_id := 7\<rparr>"
  let ?w = "demo_world\<lparr>article := [demo_url \<mapsto> stored_article]\<rparr>"
  obtain r1 w1 where c: "article_upsert demo_env label_batch_import ?a demo_account demo_world
      = (Inr r1, w1)"
    by (simp add: article_upsert_def upsert_def demo_env_fields Let_def)
  obtain r2 w2 where u: "article_upsert demo_env label_batch_import ?a demo_account ?w
      = (Inr r2, w2)"
    by (simp add: article_upsert_def upsert_def demo_env_fields Let_def demo_world_def
        demo_article_def)
  have l: "label_batch_import \<noteq> []" by (simp add: label_batch_import_def)
  have pa: "publishDate ?a = None" "author ?a = Some []" "clock demo_env out = 1000" for out
    by (simp_all add: demo_article_def demo_env_fields)
  from article_upsert_defaults [OF c] pa
  have c1: "article_publishDate r1 = Now 1000 \<and> article_author r1 = label_batch_import
      \<and> article w1 (url ?a) = Some r1"
    by simp
  from article_upsert_defaults [OF u] pa
  have u1: "article_publishDate r2 = Now 1000 \<and> article_author r2 = label_batch_import
      \<and> article w2 (url ?a) = Some r2"
    by simp
  have c2: "article_upsert demo_env label_batch_import ?a demo_account demo_world
      = (Inr ?created, demo_world\<lparr>article := [demo_url \<mapsto> ?created]\<rparr>)"
    using l
    by (simp add: article_upsert_def upsert_def demo_env_fields demo_article_def demo_world_def
        demo_account_def author_or_def date_or_now_def Let_def)
  have u2: "article_upsert demo_env label_batch_import ?a demo_account ?w
      = (Inr ?updated, demo_world\<lparr>article := [demo_url \<mapsto> ?updated]\<rparr>)"
    using l
    by (simp add: article_upsert_def upsert_def demo_env_fields demo_article_def demo_world_def
        demo_account_def stored_article_def author_or_def date_or_now_def Let_def)
  from c1 u1 c2 u2 l show ?thesis by simp
qed

end
